theory Spec2Isabelle
  imports Complex_Main "HOL-Library.Sublist"
begin

unbundle bit_operations_syntax

section \<open>Numbers of the source language\<close>

text \<open>
  The source is TypeScript. Every quantity of \<^verbatim>\<open>minimap.ts\<close> that is integral
  (pixel coordinates, image sizes, scale levels, border widths, palette indices) is an
  \<^typ>\<open>int\<close>; sprite positions, which the host keeps in fixed point and hands out with a
  fraction, are \<^typ>\<open>rat\<close>. The shift operators work on 32-bit integers: the left operand is
  truncated towards zero and wrapped into the signed 32-bit range, the shift count is taken
  modulo 32. Both are written out here, so that a shift of the model is the shift of the
  source also where it wraps.
\<close>

definition ToInt32 :: "int \<Rightarrow> int" where
  "ToInt32 n = signed_take_bit 31 n"

definition trunc :: "rat \<Rightarrow> int" where
  "trunc q = (if 0 \<le> q then \<lfloor>q\<rfloor> else \<lceil>q\<rceil>)"

definition shiftCount :: "int \<Rightarrow> nat" where
  "shiftCount s = nat (s mod 32)"

text \<open>\<^verbatim>\<open>a << s\<close>\<close>

definition shl :: "int \<Rightarrow> int \<Rightarrow> int" where
  "shl a s = ToInt32 (push_bit (shiftCount s) (ToInt32 a))"

text \<open>\<^verbatim>\<open>a >> s\<close> (the sign-propagating shift)\<close>

definition sar :: "int \<Rightarrow> int \<Rightarrow> int" where
  "sar a s = drop_bit (shiftCount s) (ToInt32 a)"

text \<open>
  The two enumerations of the source are numeric: their members are the numbers
  \<open>0, 1, 2, \<dots>\<close> in the order of declaration, the source subtracts one from the other and
  shifts by them, and a parameter of such a type takes any number at run time. They are
  numbers here, with the members as named constants.
\<close>

type_synonym MinimapScale = int
type_synonym MinimapSpriteScale = int

definition Original :: MinimapScale where "Original = 0"
definition Half :: MinimapScale where "Half = 1"
definition Quarter :: MinimapScale where "Quarter = 2"
definition Eighth :: MinimapScale where "Eighth = 3"
definition Sixteenth :: MinimapScale where "Sixteenth = 4"

definition SpriteScale_MinimapScale :: MinimapSpriteScale where "SpriteScale_MinimapScale = 0"
definition Double :: MinimapSpriteScale where "Double = 1"
definition Quadruple :: MinimapSpriteScale where "Quadruple = 2"
definition Octuple :: MinimapSpriteScale where "Octuple = 3"

section \<open>The host's image buffer\<close>

text \<open>
  Modelled from the spec: the image primitive belongs to the host engine and is not part of
  the repository. The spec (section 6) asks of it creation at a given width and height,
  per-pixel get and set, and a whole-buffer fill, with pixel value \<open>0\<close> the transparent
  sentinel. The content of a buffer is its width, its height and its pixels; a fresh buffer
  is blank; a read outside the buffer gives \<open>0\<close> and a write outside the buffer is
  dropped, which is what the host does where the spec leaves the choice to it.
\<close>

record Image =
  width :: int
  height :: int
  pixels :: "int \<times> int \<Rightarrow> int"

definition inRange :: "Image \<Rightarrow> int \<Rightarrow> int \<Rightarrow> bool" where
  "inRange img x y = (0 \<le> x \<and> x < width img \<and> 0 \<le> y \<and> y < height img)"

definition create :: "int \<Rightarrow> int \<Rightarrow> Image" where
  "create w h = \<lparr>width = w, height = h, pixels = (\<lambda>p. 0)\<rparr>"

definition getPixel :: "Image \<Rightarrow> int \<Rightarrow> int \<Rightarrow> int" where
  "getPixel img x y = (if inRange img x y then pixels img (x, y) else 0)"

definition setPixel :: "Image \<Rightarrow> int \<Rightarrow> int \<Rightarrow> int \<Rightarrow> Image" where
  "setPixel img x y c =
     (if inRange img x y then img\<lparr>pixels := (pixels img)((x, y) := c)\<rparr> else img)"

definition fill :: "Image \<Rightarrow> int \<Rightarrow> Image" where
  "fill img c = img\<lparr>pixels := (\<lambda>p. c)\<rparr>"

text \<open>
  An image of the source is an object: a variable of type \<^verbatim>\<open>Image\<close> holds a reference
  to a buffer, two variables can hold the same reference, and \<^verbatim>\<open>setPixel\<close> through
  one is seen by \<^verbatim>\<open>getPixel\<close> through the other. A reference is an address, and the
  images are a store from addresses to the contents of the buffers.
\<close>

type_synonym ImageRef = nat
type_synonym Images = "ImageRef \<Rightarrow> Image"

section \<open>ScaledRenderer\<close>

text \<open>
  \<^verbatim>\<open>renderScaledImage\<close>: two nested \<^verbatim>\<open>for\<close> loops whose counters advance by
  \<^verbatim>\<open>1 << scale\<close>. Nothing in the source bounds the step from below, so the loops are
  partial functions: \<open>None\<close> is a loop that does not return. Source and destination are
  references: every read is a read of the store as it is then, every write a write into
  it, also when the two are the same buffer.
\<close>

partial_function (option) renderColumn ::
  "ImageRef \<Rightarrow> ImageRef \<Rightarrow> int \<Rightarrow> int \<Rightarrow> MinimapScale \<Rightarrow> int \<Rightarrow> int \<Rightarrow> Images \<Rightarrow> Images option"
where
  "renderColumn source destination x y scale i j imgs =
     (if j < height (imgs source) then
        renderColumn source destination x y scale i (j + shl 1 scale)
          (if getPixel (imgs source) i j \<noteq> 0
           then imgs(destination :=
                  setPixel (imgs destination) (x + sar i scale) (y + sar j scale)
                    (getPixel (imgs source) i j))
           else imgs)
      else Some imgs)"

partial_function (option) renderColumns ::
  "ImageRef \<Rightarrow> ImageRef \<Rightarrow> int \<Rightarrow> int \<Rightarrow> MinimapScale \<Rightarrow> int \<Rightarrow> Images \<Rightarrow> Images option"
where
  "renderColumns source destination x y scale i imgs =
     (if i < width (imgs source) then
        (case renderColumn source destination x y scale i 0 imgs of
           None \<Rightarrow> None
         | Some imgs' \<Rightarrow> renderColumns source destination x y scale (i + shl 1 scale) imgs')
      else Some imgs)"

declare renderColumn.simps [code] renderColumns.simps [code]

definition renderScaledImage ::
  "ImageRef \<Rightarrow> ImageRef \<Rightarrow> int \<Rightarrow> int \<Rightarrow> MinimapScale \<Rightarrow> Images \<Rightarrow> Images option"
where
  "renderScaledImage source destination x y scale imgs =
     renderColumns source destination x y scale 0 imgs"

section \<open>MinimapBuilder\<close>

record Minimap =
  imageM :: ImageRef
  scaleM :: MinimapScale
  borderWidthM :: int
  borderColorM :: int

text \<open>
  Modelled from the spec: the tile grid belongs to the host and is not part of the
  repository. It is what \<^verbatim>\<open>getMinimapObject\<close> reads of it: the area in pixels, the
  scale exponent of a tile, the index of the tile in a cell and the image of a tile index.
\<close>

record TileMap =
  areaWidth :: int
  areaHeight :: int
  scaleT :: int
  getTileIndex :: "int \<Rightarrow> int \<Rightarrow> int"
  getTileImage :: "int \<Rightarrow> ImageRef"

text \<open>
  Modelled from the spec: \<^verbatim>\<open>image.create\<close> of the host makes a new buffer, which is no
  buffer that was there before. The heap of images is the store with the next free
  address; the addresses below it are the buffers there are, and the new buffer gets the
  next free one.
\<close>

record ImageHeap =
  images :: Images
  nextImage :: ImageRef

definition image_create :: "int \<Rightarrow> int \<Rightarrow> ImageHeap \<Rightarrow> ImageRef \<times> ImageHeap" where
  "image_create w h hp =
     (nextImage hp,
      hp\<lparr>images := (images hp)(nextImage hp := create w h),
         nextImage := Suc (nextImage hp)\<rparr>)"

text \<open>
  The two counting loops of \<^verbatim>\<open>getMinimapObject\<close>, the inner one over the columns
  \<open>c\<close> of a row, the outer one over the rows \<open>r\<close>. They advance by one and always end;
  the rendering of a tile inside them may not return.
\<close>

function tileRow ::
  "TileMap \<Rightarrow> MinimapScale \<Rightarrow> int \<Rightarrow> int \<Rightarrow> int \<Rightarrow> int \<Rightarrow> int \<Rightarrow> ImageRef \<Rightarrow> Images \<Rightarrow>
   Images option"
where
  "tileRow tilemap scale borderWidth numCols tileWidth r c minimap imgs =
     (if c < numCols then
        (case renderScaledImage (getTileImage tilemap (getTileIndex tilemap c r)) minimap
                (sar (c * tileWidth) scale + borderWidth)
                (sar (r * tileWidth) scale + borderWidth) scale imgs of
           None \<Rightarrow> None
         | Some imgs' \<Rightarrow>
             tileRow tilemap scale borderWidth numCols tileWidth r (c + 1) minimap imgs')
      else Some imgs)"
  by pat_completeness auto
termination
  by (relation "measure (\<lambda>(tilemap, scale, borderWidth, numCols, tileWidth, r, c, minimap, imgs).
        nat (numCols - c))") auto

function tileRows ::
  "TileMap \<Rightarrow> MinimapScale \<Rightarrow> int \<Rightarrow> int \<Rightarrow> int \<Rightarrow> int \<Rightarrow> int \<Rightarrow> ImageRef \<Rightarrow> Images \<Rightarrow>
   Images option"
where
  "tileRows tilemap scale borderWidth numRows numCols tileWidth r minimap imgs =
     (if r < numRows then
        (case tileRow tilemap scale borderWidth numCols tileWidth r 0 minimap imgs of
           None \<Rightarrow> None
         | Some imgs' \<Rightarrow>
             tileRows tilemap scale borderWidth numRows numCols tileWidth (r + 1) minimap imgs')
      else Some imgs)"
  by pat_completeness auto
termination
  by (relation "measure (\<lambda>(tilemap, scale, borderWidth, numRows, numCols, tileWidth, r, minimap,
        imgs). nat (numRows - r))") auto

declare tileRow.simps [simp del] tileRows.simps [simp del]

text \<open>
  \<^verbatim>\<open>getMinimapObject\<close>. Its first argument is \<^verbatim>\<open>game.currentScene().tileMap\<close>,
  \<open>None\<close> when the scene has no tile grid; its last is the heap of images, which comes
  back with the new image in it.
\<close>

definition getMinimapObject ::
  "TileMap option \<Rightarrow> MinimapScale \<Rightarrow> int \<Rightarrow> int \<Rightarrow> ImageHeap \<Rightarrow> (Minimap \<times> ImageHeap) option"
where
  "getMinimapObject tileMap scale borderWidth borderColor hp =
     (case tileMap of
        None \<Rightarrow>
          (let (img, hp1) = image_create 1 1 hp
           in Some (\<lparr>imageM = img, scaleM = scale,
                     borderWidthM = borderWidth, borderColorM = borderColor\<rparr>, hp1))
      | Some tilemap \<Rightarrow>
          (let numRows = sar (areaHeight tilemap) (scaleT tilemap);
               numCols = sar (areaWidth tilemap) (scaleT tilemap);
               tileWidth = shl 1 (scaleT tilemap);
               (minimap, hp1) = image_create
                                  (sar (numCols * tileWidth) scale + borderWidth * 2)
                                  (sar (numRows * tileWidth) scale + borderWidth * 2) hp;
               imgs = (if borderWidth > 0
                       then (images hp1)(minimap := fill (images hp1 minimap) borderColor)
                       else images hp1)
           in case tileRows tilemap scale borderWidth numRows numCols tileWidth 0 minimap imgs of
                None \<Rightarrow> None
              | Some imgs' \<Rightarrow>
                  Some (\<lparr>imageM = minimap, scaleM = scale,
                         borderWidthM = borderWidth, borderColorM = borderColor\<rparr>,
                        hp1\<lparr>images := imgs'\<rparr>)))"

definition getImage :: "Minimap \<Rightarrow> ImageRef" where
  "getImage minimap = imageM minimap"

section \<open>SpriteOverlay\<close>

text \<open>
  Modelled from the spec: the sprite belongs to the host and is not part of the repository.
  It is what the source reads and writes of it: the world position (a number with a
  fraction), the size in pixels, the image, the flag bits and the \<^verbatim>\<open>data\<close> slot, which
  holds a minimap or nothing. \<open>Flag_Destroyed\<close> is the host's
  \<^verbatim>\<open>sprites.Flag.Destroyed\<close>, the second flag bit.
\<close>

record Sprite =
  xS :: rat
  yS :: rat
  widthS :: int
  heightS :: int
  imageS :: ImageRef
  flagsS :: int
  dataS :: "Minimap option"

definition Flag_Destroyed :: int where
  "Flag_Destroyed = 2"

text \<open>
  \<^verbatim>\<open>includeSprite\<close> draws the image of the sprite into the image of the minimap, in
  the store. The two can be one buffer: a sprite made by \<open>createMinimapSprite\<close> shows the
  image of the minimap it holds.
\<close>

definition includeSprite ::
  "Minimap \<Rightarrow> Sprite \<Rightarrow> MinimapSpriteScale \<Rightarrow> Images \<Rightarrow> Images option"
where
  "includeSprite minimap sprite spriteScale imgs =
     (let scale = max (scaleM minimap - spriteScale) 0;
          x = sar (trunc (xS sprite)) (scaleM minimap)
                - sar (trunc (of_int (widthS sprite) / 2)) scale + borderWidthM minimap;
          y = sar (trunc (yS sprite)) (scaleM minimap)
                - sar (trunc (of_int (heightS sprite) / 2)) scale + borderWidthM minimap
      in renderScaledImage (imageS sprite) (imageM minimap) x y scale imgs)"

section \<open>UpdateTracker\<close>

text \<open>
  Sprites are objects of the host, compared by reference: a reference is an address, the
  host's store maps an address to the sprite there, and a value of type
  \<^verbatim>\<open>Sprite\<close> is \<^verbatim>\<open>undefined\<close>, \<^verbatim>\<open>null\<close> or a reference. The strict comparison
  \<^verbatim>\<open>!==\<close> of the source is the inequality of such values.
\<close>

type_synonym SpriteRef = nat

datatype SpriteValue = Undefined | Null | Ref SpriteRef

record IUpdateSprite =
  spriteU :: SpriteValue
  scaleU :: MinimapSpriteScale

text \<open>
  The state: the two variables of the module, \<^verbatim>\<open>minimapSprite\<close> and
  \<^verbatim>\<open>spritesToUpdate\<close>, and of the host the tile grid of the current scene, the store
  of sprites with the next free address, the heap of images, and the intervals at which the
  refresh callback has been registered with \<^verbatim>\<open>game.onUpdateInterval\<close>.
\<close>

record state =
  minimapSprite :: "SpriteRef option"
  spritesToUpdate :: "IUpdateSprite list"
  sceneTileMap :: "TileMap option"
  sprites :: "SpriteRef \<Rightarrow> Sprite"
  nextSprite :: SpriteRef
  heap :: ImageHeap
  updateIntervals :: "int list"

text \<open>
  Modelled from the spec: \<^verbatim>\<open>sprites.create\<close> of the host makes a new sprite object
  that shows the image it is given. The new object is at the next free address; its
  position and flags are the host's choice and are left as the store has them.
\<close>

definition sprites_create :: "ImageRef \<Rightarrow> state \<Rightarrow> SpriteRef \<times> state" where
  "sprites_create img st =
     (nextSprite st,
      st\<lparr>sprites := (sprites st)(nextSprite st :=
            (sprites st (nextSprite st))\<lparr>widthS := width (images (heap st) img),
                                          heightS := height (images (heap st) img),
                                          imageS := img\<rparr>),
         nextSprite := Suc (nextSprite st)\<rparr>)"

definition createMinimapSprite ::
  "state \<Rightarrow> MinimapScale \<Rightarrow> int \<Rightarrow> int \<Rightarrow> (SpriteRef \<times> state) option"
where
  "createMinimapSprite st scale borderWidth borderColor =
     (case getMinimapObject (sceneTileMap st) scale borderWidth borderColor (heap st) of
        None \<Rightarrow> None
      | Some (minimap, hp) \<Rightarrow>
          (let (r, st1) = sprites_create (imageM minimap) (st\<lparr>heap := hp\<rparr>);
               st2 = st1\<lparr>minimapSprite := Some r\<rparr>;
               st3 = st2\<lparr>sprites := (sprites st2)(r := (sprites st2 r)\<lparr>dataS := Some minimap\<rparr>)\<rparr>
           in Some (r, st3)))"

definition addSpriteToUpdateList ::
  "state \<Rightarrow> SpriteValue \<Rightarrow> MinimapSpriteScale \<Rightarrow> state"
where
  "addSpriteToUpdateList st sprite spriteScale =
     (let updateSprite = \<lparr>spriteU = sprite, scaleU = spriteScale\<rparr>
      in st\<lparr>spritesToUpdate := spritesToUpdate st @ [updateSprite]\<rparr>)"

definition removeSpriteFromUpdateList :: "state \<Rightarrow> SpriteValue \<Rightarrow> state" where
  "removeSpriteFromUpdateList st sprite =
     st\<lparr>spritesToUpdate := filter (\<lambda>u. spriteU u \<noteq> sprite) (spritesToUpdate st)\<rparr>"

text \<open>
  \<^verbatim>\<open>isDestroyed\<close>, of what a value of type \<^verbatim>\<open>Sprite\<close> stands for: no object
  (\<^verbatim>\<open>undefined\<close> and \<^verbatim>\<open>null\<close> are falsy), or the sprite at the reference.
\<close>

definition isDestroyed :: "Sprite option \<Rightarrow> bool" where
  "isDestroyed sprite =
     (case sprite of
        None \<Rightarrow> True
      | Some s \<Rightarrow> ToInt32 (flagsS s) AND ToInt32 Flag_Destroyed \<noteq> 0)"

text \<open>
  The refresh callback. It can fail where the source reads a property of
  \<^verbatim>\<open>undefined\<close>: that is the fault \<open>TypeError\<close>. A run that does not return is
  \<open>None\<close>, a run that faults is \<open>Some (Inl TypeError)\<close>, a run that completes in state
  \<open>st'\<close> is \<open>Some (Inr st')\<close>.
\<close>

datatype fault = TypeError

definition deref :: "state \<Rightarrow> SpriteValue \<Rightarrow> Sprite option" where
  "deref st v = (case v of Ref r \<Rightarrow> Some (sprites st r) | _ \<Rightarrow> None)"

text \<open>
  The loop over the snapshot \<^verbatim>\<open>spritesToUpdate.slice()\<close>: the list it walks is its
  first argument, the minimap it draws on, \<^verbatim>\<open>minimapSprite.data\<close>, its second; the
  live list and the images are in the state.
\<close>

fun updateSprites ::
  "IUpdateSprite list \<Rightarrow> Minimap \<Rightarrow> state \<Rightarrow> (fault + state) option"
where
  "updateSprites [] minimap st = Some (Inr st)"
| "updateSprites (updateSprite # rest) minimap st =
     (if \<not> isDestroyed (deref st (spriteU updateSprite)) then
        (case deref st (spriteU updateSprite) of
           None \<Rightarrow> Some (Inl TypeError)
         | Some s \<Rightarrow>
             (case includeSprite minimap s (scaleU updateSprite) (images (heap st)) of
                None \<Rightarrow> None
              | Some imgs \<Rightarrow> updateSprites rest minimap (st\<lparr>heap := (heap st)\<lparr>images := imgs\<rparr>\<rparr>)))
      else updateSprites rest minimap (removeSpriteFromUpdateList st (spriteU updateSprite)))"

definition refreshTick :: "state \<Rightarrow> (fault + state) option" where
  "refreshTick st =
     (case minimapSprite st of
        None \<Rightarrow> Some (Inl TypeError)
      | Some ms \<Rightarrow>
          (case dataS (sprites st ms) of
             None \<Rightarrow> Some (Inl TypeError)
           | Some oldMM \<Rightarrow>
               (case getMinimapObject (sceneTileMap st) (scaleM oldMM) (borderWidthM oldMM)
                       (borderColorM oldMM) (heap st) of
                  None \<Rightarrow> None
                | Some (newMM, hp) \<Rightarrow>
                    (let st1 = st\<lparr>heap := hp,
                                  sprites := (sprites st)(ms :=
                                    (sprites st ms)\<lparr>dataS := Some newMM\<rparr>)\<rparr>
                     in case updateSprites (spritesToUpdate st1) newMM st1 of
                          None \<Rightarrow> None
                        | Some (Inl e) \<Rightarrow> Some (Inl e)
                        | Some (Inr st2) \<Rightarrow>
                            Some (Inr (st2\<lparr>sprites := (sprites st2)(ms :=
                              (sprites st2 ms)\<lparr>imageS := imageM newMM\<rparr>)\<rparr>))))))"

text \<open>
  \<^verbatim>\<open>updateMiniMapEvery\<close> registers the refresh callback with the host's scheduler and
  does nothing else; each firing of the registration is one \<open>refreshTick\<close>.
\<close>

definition updateMiniMapEvery :: "state \<Rightarrow> int \<Rightarrow> state" where
  "updateMiniMapEvery st updateInterval =
     st\<lparr>updateIntervals := updateIntervals st @ [updateInterval]\<rparr>"

text \<open>
  The state in which the module starts: \<^verbatim>\<open>minimapSprite\<close> is declared without a
  value, \<^verbatim>\<open>spritesToUpdate\<close> is the empty list, nothing is registered; the host's part
  is what it is.
\<close>

definition init ::
  "TileMap option \<Rightarrow> (SpriteRef \<Rightarrow> Sprite) \<Rightarrow> SpriteRef \<Rightarrow> ImageHeap \<Rightarrow> state"
where
  "init tilemap store free hp =
     \<lparr>minimapSprite = None, spritesToUpdate = [], sceneTileMap = tilemap,
      sprites = store, nextSprite = free, heap = hp, updateIntervals = []\<rparr>"

section \<open>What the spec says of the renderer\<close>

text \<open>
  The spec's sentence on \<^verbatim>\<open>renderScaled\<close>, as a function of its own: destination pixel
  \<open>(a, b)\<close> corresponds to source pixel \<open>((a - x) * 2^scale, (b - y) * 2^scale)\<close>;
  \<open>sampled\<close> says that this source pixel exists and is not transparent, and
  \<open>renderScaled_spec\<close> puts it into the destination wherever that is so and keeps the
  destination everywhere else. \<open>stampWhere\<close> is the same for a part \<open>R\<close> of the sampled
  pixels, the state of the destination in the middle of the loops.
\<close>

definition sampled :: "Image \<Rightarrow> MinimapScale \<Rightarrow> int \<Rightarrow> int \<Rightarrow> bool" where
  "sampled source scale k l =
     (0 \<le> k \<and> k * 2 ^ nat scale < width source \<and> 0 \<le> l \<and> l * 2 ^ nat scale < height source \<and>
      getPixel source (k * 2 ^ nat scale) (l * 2 ^ nat scale) \<noteq> 0)"

definition stampWhere ::
  "(int \<Rightarrow> int \<Rightarrow> bool) \<Rightarrow> Image \<Rightarrow> Image \<Rightarrow> int \<Rightarrow> int \<Rightarrow> MinimapScale \<Rightarrow> Image" where
  "stampWhere R source destination x y scale =
     destination\<lparr>pixels := (\<lambda>(a, b).
        if inRange destination a b \<and> R (a - x) (b - y) \<and> sampled source scale (a - x) (b - y)
        then getPixel source ((a - x) * 2 ^ nat scale) ((b - y) * 2 ^ nat scale)
        else pixels destination (a, b))\<rparr>"

definition renderScaled_spec :: "Image \<Rightarrow> Image \<Rightarrow> int \<Rightarrow> int \<Rightarrow> MinimapScale \<Rightarrow> Image" where
  "renderScaled_spec source destination x y scale =
     destination\<lparr>pixels := (\<lambda>(a, b).
        if inRange destination a b \<and> sampled source scale (a - x) (b - y)
        then getPixel source ((a - x) * 2 ^ nat scale) ((b - y) * 2 ^ nat scale)
        else pixels destination (a, b))\<rparr>"

text \<open>
  A scale level is an exponent of a downscale by a power of two. The members of
  \<^verbatim>\<open>MinimapScale\<close> are the levels \<open>0\<close> to \<open>4\<close>; \<open>scaleLevel\<close> takes in every
  exponent at which \<^verbatim>\<open>1 << scale\<close> is that power of two.
\<close>

definition scaleLevel :: "int \<Rightarrow> bool" where
  "scaleLevel s = (0 \<le> s \<and> s \<le> 30)"

text \<open>
  A buffer of the host has sides far below \<open>2^31\<close>; \<open>hostImage\<close> asks no more than
  that a coordinate inside it is a 32-bit integer, so that \<^verbatim>\<open>i >> scale\<close> does not wrap.
\<close>

definition hostImage :: "Image \<Rightarrow> bool" where
  "hostImage img = (width img \<le> 2 ^ 31 \<and> height img \<le> 2 ^ 31)"

text \<open>
  \<open>hostBuffer\<close>: the reference is to a buffer that is there, one of those below the next
  free address, and its content is a buffer of the host.
\<close>

definition hostBuffer :: "ImageHeap \<Rightarrow> ImageRef \<Rightarrow> bool" where
  "hostBuffer hp r = (r < nextImage hp \<and> hostImage (images hp r))"

section \<open>What the spec says of the border\<close>

text \<open>
  The tile of a cell; \<open>tileHit\<close>: the stamp of cell \<open>(c, r)\<close>, at the offset the source
  gives it, draws on pixel \<open>(px, py)\<close> of the minimap; \<open>tilePixel\<close>: what it draws
  there; \<open>drawnOver\<close>: the stamp of some cell of the grid draws on the pixel;
  \<open>outerMargin\<close>: the pixel is in the image and less than the border width away from
  one of its sides. The tiles are read in the store of images.
\<close>

definition tileAt :: "Images \<Rightarrow> TileMap \<Rightarrow> int \<Rightarrow> int \<Rightarrow> Image" where
  "tileAt imgs tilemap c r = imgs (getTileImage tilemap (getTileIndex tilemap c r))"

definition tileHit ::
  "Images \<Rightarrow> TileMap \<Rightarrow> MinimapScale \<Rightarrow> int \<Rightarrow> int \<Rightarrow> int \<Rightarrow> int \<Rightarrow> int \<Rightarrow> bool" where
  "tileHit imgs tilemap scale borderWidth c r px py =
     (let tileWidth = shl 1 (scaleT tilemap)
      in sampled (tileAt imgs tilemap c r) scale
           (px - (sar (c * tileWidth) scale + borderWidth))
           (py - (sar (r * tileWidth) scale + borderWidth)))"

definition tilePixel ::
  "Images \<Rightarrow> TileMap \<Rightarrow> MinimapScale \<Rightarrow> int \<Rightarrow> int \<Rightarrow> int \<Rightarrow> int \<Rightarrow> int \<Rightarrow> int" where
  "tilePixel imgs tilemap scale borderWidth c r px py =
     (let tileWidth = shl 1 (scaleT tilemap)
      in getPixel (tileAt imgs tilemap c r)
           ((px - (sar (c * tileWidth) scale + borderWidth)) * 2 ^ nat scale)
           ((py - (sar (r * tileWidth) scale + borderWidth)) * 2 ^ nat scale))"

definition drawnOver :: "Images \<Rightarrow> TileMap \<Rightarrow> MinimapScale \<Rightarrow> int \<Rightarrow> int \<Rightarrow> int \<Rightarrow> bool" where
  "drawnOver imgs tilemap scale borderWidth px py =
     (let numRows = sar (areaHeight tilemap) (scaleT tilemap);
          numCols = sar (areaWidth tilemap) (scaleT tilemap)
      in \<exists>r \<in> set [0..numRows - 1]. \<exists>c \<in> set [0..numCols - 1].
           tileHit imgs tilemap scale borderWidth c r px py)"

definition outerMargin :: "Image \<Rightarrow> int \<Rightarrow> int \<Rightarrow> int \<Rightarrow> bool" where
  "outerMargin img borderWidth px py =
     (inRange img px py \<and>
      (px < borderWidth \<or> py < borderWidth \<or>
       width img - borderWidth \<le> px \<or> height img - borderWidth \<le> py))"

section \<open>What the spec says of a refresh tick\<close>

text \<open>
  An entry of the tracked list is \<open>live\<close> when its sprite is not destroyed.
  \<open>liveSprites\<close> are the sprites of the live entries of a list with the scale of each, in
  the order of the list and as often as they are in it; \<open>overlayEach\<close> overlays them one
  after the other on a minimap, in the store of images.
\<close>

definition live :: "state \<Rightarrow> IUpdateSprite \<Rightarrow> bool" where
  "live st u = (\<not> isDestroyed (deref st (spriteU u)))"

definition liveSprites :: "state \<Rightarrow> IUpdateSprite list \<Rightarrow> (Sprite \<times> MinimapSpriteScale) list" where
  "liveSprites st us =
     List.map_filter (\<lambda>u. case deref st (spriteU u) of
                             None \<Rightarrow> None
                           | Some s \<Rightarrow> if live st u then Some (s, scaleU u) else None) us"

fun overlayEach ::
  "(Sprite \<times> MinimapSpriteScale) list \<Rightarrow> Minimap \<Rightarrow> Images \<Rightarrow> Images option" where
  "overlayEach [] minimap imgs = Some imgs"
| "overlayEach ((s, spriteScale) # rest) minimap imgs =
     (case includeSprite minimap s spriteScale imgs of
        None \<Rightarrow> None
      | Some imgs' \<Rightarrow> overlayEach rest minimap imgs')"

section \<open>Concrete inputs\<close>

text \<open>
  A store of images: at address \<open>0\<close> a buffer of four by two pixels with the row
  \<open>1 2 3 4\<close> on top, at \<open>1\<close> to \<open>4\<close> four tiles of eight by eight pixels, each of one
  color, at \<open>5\<close> the image of a sprite, at \<open>6\<close> a blank one, at \<open>7\<close> a blank image
  of twenty by twenty pixels, and blank images of five by five pixels from there on.
\<close>

definition src0 :: Image where
  "src0 = \<lparr>width = 4, height = 2, pixels = (\<lambda>(i, j). if j = 0 then i + 1 else 0)\<rparr>"

definition tile8 :: "int \<Rightarrow> Image" where
  "tile8 idx = \<lparr>width = 8, height = 8, pixels = (\<lambda>p. idx)\<rparr>"

definition images0 :: Images where
  "images0 r =
     (if r = 0 then src0
      else if r \<le> 4 then tile8 (int r)
      else if r = 5 then \<lparr>width = 4, height = 4, pixels = (\<lambda>p. 9)\<rparr>
      else if r = 6 then create 4 4
      else if r = 7 then create 20 20
      else create 5 5)"

definition heap0 :: ImageHeap where
  "heap0 = \<lparr>images = images0, nextImage = 9\<rparr>"

definition grid44 :: TileMap where
  "grid44 = \<lparr>areaWidth = 32, areaHeight = 32, scaleT = 3,
              getTileIndex = (\<lambda>c r. 1 + ((c + r) mod 4)),
              getTileImage = (\<lambda>idx. if 1 \<le> idx \<and> idx \<le> 4 then nat idx else 0)\<rparr>"

definition sprite0 :: Sprite where
  "sprite0 = \<lparr>xS = 41 / 2, yS = 10, widthS = 4, heightS = 4,
     imageS = 5, flagsS = 0, dataS = None\<rparr>"

definition blankSprite :: Sprite where
  "blankSprite = sprite0\<lparr>imageS := 6\<rparr>"

definition minimap0 :: Minimap where
  "minimap0 = \<lparr>imageM = 7, scaleM = Eighth, borderWidthM = 2, borderColorM = 5\<rparr>"

text \<open>
  A minimap whose image is the buffer at address \<open>0\<close>, and a sprite that shows the same
  buffer, as the sprite of \<open>createMinimapSprite\<close> shows the image of its minimap.
\<close>

definition ownMinimap :: Minimap where
  "ownMinimap = \<lparr>imageM = 0, scaleM = Original, borderWidthM = 0, borderColorM = 0\<rparr>"

definition ownSprite :: Sprite where
  "ownSprite = \<lparr>xS = 3, yS = 1, widthS = 4, heightS = 2,
     imageS = 0, flagsS = 0, dataS = Some ownMinimap\<rparr>"

definition state0 :: state where
  "state0 = \<lparr>minimapSprite = None, spritesToUpdate = [],
      sceneTileMap = Some grid44,
      sprites = (\<lambda>r. if r = 1 then sprite0\<lparr>flagsS := Flag_Destroyed\<rparr> else sprite0),
      nextSprite = 3, heap = heap0, updateIntervals = []\<rparr>"

definition tracked0 :: "IUpdateSprite list" where
  "tracked0 = [\<lparr>spriteU = Ref 0, scaleU = Double\<rparr>, \<lparr>spriteU = Ref 2, scaleU = Double\<rparr>,
               \<lparr>spriteU = Ref 0, scaleU = Quadruple\<rparr>]"

definition state1 :: state where
  "state1 = state0\<lparr>minimapSprite := Some 3,
      spritesToUpdate := tracked0 @ [\<lparr>spriteU = Ref 1, scaleU = Double\<rparr>,
                                     \<lparr>spriteU = Null, scaleU = Double\<rparr>,
                                     \<lparr>spriteU = Undefined, scaleU = Double\<rparr>],
      sprites := (sprites state0)(3 := sprite0\<lparr>dataS := Some minimap0\<rparr>)\<rparr>"

section \<open>Shifts inside the 32-bit range\<close>

lemma ToInt32_id: "- (2 ^ 31) \<le> n \<Longrightarrow> n < 2 ^ 31 \<Longrightarrow> ToInt32 n = n"
  unfolding ToInt32_def by (rule signed_take_bit_int_eq_self)

lemma shiftCount_id: "0 \<le> s \<Longrightarrow> s \<le> 31 \<Longrightarrow> shiftCount s = nat s"
  by (simp add: shiftCount_def)

lemma shl_one: 
  assumes "0 \<le> s" "s \<le> 30" shows "shl 1 s = 2 ^ nat s"
proof -
  have "nat s < 31" using assms by simp
  then have "(2::int) ^ nat s < 2 ^ 31" by (rule power_strict_increasing) simp
  moreover have "- (2 ^ 31) \<le> (2::int) ^ nat s"
    by (rule order_trans [of _ 0]) simp_all
  ultimately have "ToInt32 (2 ^ nat s) = 2 ^ nat s" by (rule ToInt32_id[rotated])
  moreover have "ToInt32 1 = 1" by (simp add: ToInt32_id)
  ultimately show ?thesis using assms by (simp add: shl_def shiftCount_id push_bit_eq_mult)
qed

text \<open>
  From count 31 on the shift is no power of two any more: it wraps. The scale levels of the
  source stay far below.
\<close>

lemma shl_one_wraps: "shl 1 31 = - (2 ^ 31) \<and> shl 1 32 = 1"
  by (simp add: shl_def ToInt32_def shiftCount_def)

lemma MinimapScale_levels:
  "scaleLevel Original \<and> scaleLevel Half \<and> scaleLevel Quarter \<and> scaleLevel Eighth \<and>
   scaleLevel Sixteenth"
  by (simp add: scaleLevel_def Original_def Half_def Quarter_def Eighth_def Sixteenth_def)

lemma shl_one_pos: "0 \<le> s \<Longrightarrow> s \<le> 30 \<Longrightarrow> 0 < shl 1 s"
  by (simp add: shl_one)

lemma sar_div: "0 \<le> s \<Longrightarrow> s \<le> 31 \<Longrightarrow> - (2 ^ 31) \<le> a \<Longrightarrow> a < 2 ^ 31 \<Longrightarrow> sar a s = a div 2 ^ nat s"
  by (simp add: sar_def shiftCount_id ToInt32_id drop_bit_eq_div)

lemma sar_multiple:
  assumes "0 \<le> s" "s \<le> 30" "0 \<le> k" "k * 2 ^ nat s < 2 ^ 31"
  shows "sar (k * 2 ^ nat s) s = k"
proof -
  have "- (2 ^ 31) \<le> k * 2 ^ nat s" using assms(3) by (rule_tac order_trans [of _ 0]) simp_all
  then show ?thesis using assms by (simp add: sar_div)
qed

section \<open>The renderer computes what the spec says\<close>

lemma inRange_stampWhere [simp]: "inRange (stampWhere R source d x y s) a b = inRange d a b"
  by (simp add: stampWhere_def inRange_def)

lemma inRange_setPixel [simp]: "inRange (setPixel d x y c) a b = inRange d a b"
  by (simp add: setPixel_def inRange_def)

lemma Image_eqI:
  fixes a b :: Image
  assumes "width a = width b" "height a = height b" "\<And>p q. pixels a (p, q) = pixels b (p, q)"
  shows "a = b"
proof -
  have "pixels a = pixels b" using assms(3) by (auto simp: fun_eq_iff)
  then show ?thesis using assms(1,2) by simp
qed

lemma width_stampWhere [simp]: "width (stampWhere R source d x y s) = width d"
  and height_stampWhere [simp]: "height (stampWhere R source d x y s) = height d"
  by (simp_all add: stampWhere_def)

lemma width_setPixel [simp]: "width (setPixel d x y c) = width d"
  and height_setPixel [simp]: "height (setPixel d x y c) = height d"
  by (simp_all add: setPixel_def)

lemma pixels_stampWhere:
  "pixels (stampWhere R source d x y s) (a, b) =
     (if inRange d a b \<and> R (a - x) (b - y) \<and> sampled source s (a - x) (b - y)
      then getPixel source ((a - x) * 2 ^ nat s) ((b - y) * 2 ^ nat s)
      else pixels d (a, b))"
  by (simp add: stampWhere_def)

lemma pixels_setPixel:
  "pixels (setPixel d x y c) (a, b) = (if inRange d x y \<and> a = x \<and> b = y then c else pixels d (a, b))"
  by (simp add: setPixel_def)

lemma stampWhere_none:
  assumes "\<And>k l. R k l \<Longrightarrow> \<not> sampled source s k l"
  shows "stampWhere R source d x y s = d"
proof -
  have "(\<lambda>(a, b). if inRange d a b \<and> R (a - x) (b - y) \<and> sampled source s (a - x) (b - y)
        then getPixel source ((a - x) * 2 ^ nat s) ((b - y) * 2 ^ nat s)
        else pixels d (a, b)) = pixels d"
    using assms by (auto simp: fun_eq_iff)
  then show ?thesis by (simp add: stampWhere_def)
qed

text \<open>
  With source and destination two buffers, the source stays what it is while the
  destination is drawn on.
\<close>

lemma renderColumn_stamp:
  assumes sep: "source \<noteq> destination"
    and s: "0 \<le> s" "s \<le> 30"
    and k: "0 \<le> k" "k * 2 ^ nat s < width (imgs source)"
    and bound: "width (imgs source) \<le> 2 ^ 31" "height (imgs source) \<le> 2 ^ 31"
    and l0: "0 \<le> l0"
  shows "renderColumn source destination x y s (k * 2 ^ nat s) (l0 * 2 ^ nat s)
           (imgs(destination := d)) =
         Some (imgs(destination :=
           stampWhere (\<lambda>k' l'. k' = k \<and> l0 \<le> l') (imgs source) d x y s))"
  using l0
proof (induction "nat (height (imgs source) - l0 * 2 ^ nat s)" arbitrary: l0 d rule: less_induct)
  case less
  define P :: int where "P = 2 ^ nat s"
  have P: "0 < P" by (simp add: P_def)
  show ?case
  proof (cases "l0 * P < height (imgs source)")
    case False
    have "\<not> sampled (imgs source) s k' l'" if "k' = k \<and> l0 \<le> l'" for k' l'
    proof -
      have "l0 * P \<le> l' * P" using that P by simp
      then show ?thesis using False unfolding sampled_def P_def by linarith
    qed
    then have "stampWhere (\<lambda>k' l'. k' = k \<and> l0 \<le> l') (imgs source) d x y s = d"
      by (rule stampWhere_none)
    then show ?thesis using False sep
      by (subst renderColumn.simps) (simp add: P_def)
  next
    case True
    let ?i = "k * P" and ?j = "l0 * P"
    let ?d1 = "if getPixel (imgs source) ?i ?j \<noteq> 0
           then setPixel d (x + k) (y + l0) (getPixel (imgs source) ?i ?j) else d"
    have sari: "sar ?i s = k" unfolding P_def
      using s k bound by (intro sar_multiple) auto
    have sarj: "sar ?j s = l0" unfolding P_def
      using s less.prems True bound by (intro sar_multiple) (auto simp: P_def)
    have step: "?j + shl 1 s = (l0 + 1) * P"
      using s by (simp add: shl_one P_def algebra_simps)
    have "nat (height (imgs source) - (l0 + 1) * P) < nat (height (imgs source) - l0 * P)"
      using True P by (simp add: algebra_simps)
    then have IH: "renderColumn source destination x y s ?i ((l0 + 1) * P)
           (imgs(destination := ?d1)) =
         Some (imgs(destination :=
           stampWhere (\<lambda>k' l'. k' = k \<and> l0 + 1 \<le> l') (imgs source) ?d1 x y s))"
      using less.hyps [of "l0 + 1" ?d1] less.prems by (simp add: P_def)
    have eq: "stampWhere (\<lambda>k' l'. k' = k \<and> l0 + 1 \<le> l') (imgs source) ?d1 x y s =
              stampWhere (\<lambda>k' l'. k' = k \<and> l0 \<le> l') (imgs source) d x y s"
    proof (rule Image_eqI)
      fix a b
      show "pixels (stampWhere (\<lambda>k' l'. k' = k \<and> l0 + 1 \<le> l') (imgs source) ?d1 x y s) (a, b) =
            pixels (stampWhere (\<lambda>k' l'. k' = k \<and> l0 \<le> l') (imgs source) d x y s) (a, b)"
        using True k less.prems
        by (cases "a - x = k \<and> b - y = l0")
           (auto simp: pixels_stampWhere pixels_setPixel sampled_def P_def)
    qed simp_all
    have "renderColumn source destination x y s ?i ?j (imgs(destination := d)) =
          renderColumn source destination x y s ?i ((l0 + 1) * P) (imgs(destination := ?d1))"
      using True sep by (subst renderColumn.simps) (simp add: sari sarj step)
    then show ?thesis using IH eq by (simp add: P_def)
  qed
qed

lemma renderColumns_stamp:
  assumes sep: "source \<noteq> destination"
    and s: "0 \<le> s" "s \<le> 30"
    and bound: "width (imgs source) \<le> 2 ^ 31" "height (imgs source) \<le> 2 ^ 31"
    and k0: "0 \<le> k0"
  shows "renderColumns source destination x y s (k0 * 2 ^ nat s) (imgs(destination := d)) =
         Some (imgs(destination := stampWhere (\<lambda>k' l'. k0 \<le> k') (imgs source) d x y s))"
  using k0
proof (induction "nat (width (imgs source) - k0 * 2 ^ nat s)" arbitrary: k0 d rule: less_induct)
  case less
  define P :: int where "P = 2 ^ nat s"
  have P: "0 < P" by (simp add: P_def)
  show ?case
  proof (cases "k0 * P < width (imgs source)")
    case False
    have "\<not> sampled (imgs source) s k' l'" if "k0 \<le> k'" for k' l'
    proof -
      have "k0 * P \<le> k' * P" using that P by simp
      then show ?thesis using False unfolding sampled_def P_def by linarith
    qed
    then have "stampWhere (\<lambda>k' l'. k0 \<le> k') (imgs source) d x y s = d"
      by (rule stampWhere_none)
    then show ?thesis using False sep
      by (subst renderColumns.simps) (simp add: P_def)
  next
    case True
    let ?d1 = "stampWhere (\<lambda>k' l'. k' = k0 \<and> 0 \<le> l') (imgs source) d x y s"
    have col: "renderColumn source destination x y s (k0 * P) 0 (imgs(destination := d)) =
        Some (imgs(destination := ?d1))"
      using renderColumn_stamp [where source = source and destination = destination and s = s
          and imgs = imgs and k = k0 and ?l0.0 = 0 and x = x and y = y and d = d]
        sep s less.prems bound True
      by (simp add: P_def)
    have step: "k0 * P + shl 1 s = (k0 + 1) * P"
      using s by (simp add: shl_one P_def algebra_simps)
    have "nat (width (imgs source) - (k0 + 1) * P) < nat (width (imgs source) - k0 * P)"
      using True P by (simp add: algebra_simps)
    then have IH: "renderColumns source destination x y s ((k0 + 1) * P)
           (imgs(destination := ?d1)) =
         Some (imgs(destination := stampWhere (\<lambda>k' l'. k0 + 1 \<le> k') (imgs source) ?d1 x y s))"
      using less.hyps [of "k0 + 1" ?d1] less.prems by (simp add: P_def)
    have eq: "stampWhere (\<lambda>k' l'. k0 + 1 \<le> k') (imgs source) ?d1 x y s =
              stampWhere (\<lambda>k' l'. k0 \<le> k') (imgs source) d x y s"
    proof (rule Image_eqI)
      fix a b
      show "pixels (stampWhere (\<lambda>k' l'. k0 + 1 \<le> k') (imgs source) ?d1 x y s) (a, b) =
            pixels (stampWhere (\<lambda>k' l'. k0 \<le> k') (imgs source) d x y s) (a, b)"
        by (cases "a - x = k0") (auto simp: pixels_stampWhere sampled_def)
    qed simp_all
    have "renderColumns source destination x y s (k0 * P) (imgs(destination := d)) =
          renderColumns source destination x y s ((k0 + 1) * P) (imgs(destination := ?d1))"
      using True sep by (subst renderColumns.simps) (simp add: col step)
    then show ?thesis using IH eq by (simp add: P_def)
  qed
qed

lemma renderScaledImage_spec:
  assumes "source \<noteq> destination" "0 \<le> s" "s \<le> 30"
    "width (imgs source) \<le> 2 ^ 31" "height (imgs source) \<le> 2 ^ 31"
  shows "renderScaledImage source destination x y s imgs =
         Some (imgs(destination := renderScaled_spec (imgs source) (imgs destination) x y s))"
proof -
  have "renderScaledImage source destination x y s (imgs(destination := imgs destination)) =
      Some (imgs(destination :=
        stampWhere (\<lambda>k' l'. 0 \<le> k') (imgs source) (imgs destination) x y s))"
    using renderColumns_stamp [where source = source and destination = destination and s = s
        and imgs = imgs and ?k0.0 = 0 and x = x and y = y and d = "imgs destination"] assms
    by (simp add: renderScaledImage_def)
  moreover have "stampWhere (\<lambda>k' l'. 0 \<le> k') (imgs source) (imgs destination) x y s =
      renderScaled_spec (imgs source) (imgs destination) x y s"
    by (rule Image_eqI) (auto simp: pixels_stampWhere renderScaled_spec_def sampled_def)
  ultimately show ?thesis by simp
qed

lemma getPixel_renderScaled_spec:
  "getPixel (renderScaled_spec source d x y s) a b =
     (if inRange d a b \<and> getPixel source ((a - x) * 2 ^ nat s) ((b - y) * 2 ^ nat s) \<noteq> 0
      then getPixel source ((a - x) * 2 ^ nat s) ((b - y) * 2 ^ nat s)
      else getPixel d a b)"
proof -
  have "sampled source s k l \<longleftrightarrow> getPixel source (k * 2 ^ nat s) (l * 2 ^ nat s) \<noteq> 0" for k l
    by (auto simp: sampled_def getPixel_def inRange_def zero_le_mult_iff)
  then show ?thesis
    by (simp add: renderScaled_spec_def getPixel_def inRange_def)
qed

lemma renderScaled_spec_cong:
  assumes "width source' = width source" "height source' = height source"
    and "\<And>i j. 2 ^ nat s dvd i \<Longrightarrow> 2 ^ nat s dvd j \<Longrightarrow> getPixel source' i j = getPixel source i j"
  shows "renderScaled_spec source' d x y s = renderScaled_spec source d x y s"
proof (rule Image_eqI)
  fix a b
  have "getPixel source' ((a - x) * 2 ^ nat s) ((b - y) * 2 ^ nat s) =
        getPixel source ((a - x) * 2 ^ nat s) ((b - y) * 2 ^ nat s)"
    by (rule assms(3)) simp_all
  then show "pixels (renderScaled_spec source' d x y s) (a, b) =
        pixels (renderScaled_spec source d x y s) (a, b)"
    using assms(1,2) by (simp add: renderScaled_spec_def sampled_def)
qed (simp_all add: renderScaled_spec_def)

section \<open>The loops return\<close>

text \<open>
  Wherever the step is positive the loops end, the same buffer or not. They change no size
  and no buffer but the destination.
\<close>

lemma renderColumn_returns:
  assumes "0 < shl 1 s"
  shows "\<exists>imgs'. renderColumn source destination x y s i j imgs = Some imgs' \<and>
           (\<forall>r. width (imgs' r) = width (imgs r) \<and> height (imgs' r) = height (imgs r)) \<and>
           (\<forall>r. r \<noteq> destination \<longrightarrow> imgs' r = imgs r)"
proof (induction "nat (height (imgs source) - j)" arbitrary: j imgs rule: less_induct)
  case less
  show ?case
  proof (cases "j < height (imgs source)")
    case False
    then show ?thesis by (subst renderColumn.simps) simp
  next
    case True
    let ?imgs1 = "if getPixel (imgs source) i j \<noteq> 0
          then imgs(destination :=
                 setPixel (imgs destination) (x + sar i s) (y + sar j s)
                   (getPixel (imgs source) i j))
          else imgs"
    have size1: "width (?imgs1 r) = width (imgs r)" "height (?imgs1 r) = height (imgs r)" for r
      by simp_all
    have frame1: "?imgs1 r = imgs r" if "r \<noteq> destination" for r
      using that by simp
    have "nat (height (?imgs1 source) - (j + shl 1 s)) < nat (height (imgs source) - j)"
      using True assms unfolding size1 by simp
    from less [where j = "j + shl 1 s" and imgs = ?imgs1, OF this] obtain imgs' where
      run: "renderColumn source destination x y s i (j + shl 1 s) ?imgs1 = Some imgs'"
      and size: "\<forall>r. width (imgs' r) = width (?imgs1 r) \<and> height (imgs' r) = height (?imgs1 r)"
      and frame: "\<forall>r. r \<noteq> destination \<longrightarrow> imgs' r = ?imgs1 r"
      by blast
    have "renderColumn source destination x y s i j imgs = Some imgs'"
      using True run by (subst renderColumn.simps) simp
    moreover have "\<forall>r. width (imgs' r) = width (imgs r) \<and> height (imgs' r) = height (imgs r)"
      using size size1 by simp
    moreover have "\<forall>r. r \<noteq> destination \<longrightarrow> imgs' r = imgs r"
      using frame frame1 by simp
    ultimately show ?thesis by blast
  qed
qed

lemma renderColumns_returns:
  assumes "0 < shl 1 s"
  shows "\<exists>imgs'. renderColumns source destination x y s i imgs = Some imgs' \<and>
           (\<forall>r. width (imgs' r) = width (imgs r) \<and> height (imgs' r) = height (imgs r)) \<and>
           (\<forall>r. r \<noteq> destination \<longrightarrow> imgs' r = imgs r)"
proof (induction "nat (width (imgs source) - i)" arbitrary: i imgs rule: less_induct)
  case less
  show ?case
  proof (cases "i < width (imgs source)")
    case False
    then show ?thesis by (subst renderColumns.simps) simp
  next
    case True
    obtain imgs1 where col: "renderColumn source destination x y s i 0 imgs = Some imgs1"
      and size1: "\<forall>r. width (imgs1 r) = width (imgs r) \<and> height (imgs1 r) = height (imgs r)"
      and frame1: "\<forall>r. r \<noteq> destination \<longrightarrow> imgs1 r = imgs r"
      using renderColumn_returns [OF assms, of source destination x y i 0 imgs] by blast
    have "nat (width (imgs1 source) - (i + shl 1 s)) < nat (width (imgs source) - i)"
      using True assms size1 by simp
    from less [where i = "i + shl 1 s" and imgs = imgs1, OF this] obtain imgs' where
      run: "renderColumns source destination x y s (i + shl 1 s) imgs1 = Some imgs'"
      and size: "\<forall>r. width (imgs' r) = width (imgs1 r) \<and> height (imgs' r) = height (imgs1 r)"
      and frame: "\<forall>r. r \<noteq> destination \<longrightarrow> imgs' r = imgs1 r"
      by blast
    have "renderColumns source destination x y s i imgs = Some imgs'"
      using True col run by (subst renderColumns.simps) simp
    moreover have "\<forall>r. width (imgs' r) = width (imgs r) \<and> height (imgs' r) = height (imgs r)"
      using size size1 by simp
    moreover have "\<forall>r. r \<noteq> destination \<longrightarrow> imgs' r = imgs r"
      using frame frame1 by simp
    ultimately show ?thesis by blast
  qed
qed

lemma renderScaledImage_returns:
  assumes "0 < shl 1 s"
  shows "\<exists>imgs'. renderScaledImage source destination x y s imgs = Some imgs' \<and>
           (\<forall>r. width (imgs' r) = width (imgs r) \<and> height (imgs' r) = height (imgs r)) \<and>
           (\<forall>r. r \<noteq> destination \<longrightarrow> imgs' r = imgs r)"
  unfolding renderScaledImage_def using assms by (rule renderColumns_returns)

lemma tileRow_returns:
  "0 < shl 1 s \<Longrightarrow>
   \<exists>imgs'. tileRow tilemap s b numCols tileWidth r c minimap imgs = Some imgs' \<and>
     (\<forall>q. width (imgs' q) = width (imgs q) \<and> height (imgs' q) = height (imgs q)) \<and>
     (\<forall>q. q \<noteq> minimap \<longrightarrow> imgs' q = imgs q)"
proof (induction tilemap s b numCols tileWidth r c minimap imgs rule: tileRow.induct)
  case (1 tilemap s b numCols tileWidth r c minimap imgs)
  show ?case
  proof (cases "c < numCols")
    case False
    then show ?thesis by (subst tileRow.simps) simp
  next
    case True
    obtain imgs1 where m1: "renderScaledImage (getTileImage tilemap (getTileIndex tilemap c r))
         minimap (sar (c * tileWidth) s + b) (sar (r * tileWidth) s + b) s imgs = Some imgs1"
      and size1: "\<forall>q. width (imgs1 q) = width (imgs q) \<and> height (imgs1 q) = height (imgs q)"
      and frame1: "\<forall>q. q \<noteq> minimap \<longrightarrow> imgs1 q = imgs q"
      using renderScaledImage_returns [OF "1.prems",
          of "getTileImage tilemap (getTileIndex tilemap c r)" minimap
          "sar (c * tileWidth) s + b" "sar (r * tileWidth) s + b" imgs] by blast
    from "1.IH" [OF True m1 "1.prems"] obtain imgs' where
      run: "tileRow tilemap s b numCols tileWidth r (c + 1) minimap imgs1 = Some imgs'"
      and size: "\<forall>q. width (imgs' q) = width (imgs1 q) \<and> height (imgs' q) = height (imgs1 q)"
      and frame: "\<forall>q. q \<noteq> minimap \<longrightarrow> imgs' q = imgs1 q"
      by blast
    have "tileRow tilemap s b numCols tileWidth r c minimap imgs = Some imgs'"
      using True m1 run by (subst tileRow.simps) simp
    moreover have "\<forall>q. width (imgs' q) = width (imgs q) \<and> height (imgs' q) = height (imgs q)"
      using size size1 by simp
    moreover have "\<forall>q. q \<noteq> minimap \<longrightarrow> imgs' q = imgs q"
      using frame frame1 by simp
    ultimately show ?thesis by blast
  qed
qed

lemma tileRows_returns:
  "0 < shl 1 s \<Longrightarrow>
   \<exists>imgs'. tileRows tilemap s b numRows numCols tileWidth r minimap imgs = Some imgs' \<and>
     (\<forall>q. width (imgs' q) = width (imgs q) \<and> height (imgs' q) = height (imgs q)) \<and>
     (\<forall>q. q \<noteq> minimap \<longrightarrow> imgs' q = imgs q)"
proof (induction tilemap s b numRows numCols tileWidth r minimap imgs rule: tileRows.induct)
  case (1 tilemap s b numRows numCols tileWidth r minimap imgs)
  show ?case
  proof (cases "r < numRows")
    case False
    then show ?thesis by (subst tileRows.simps) simp
  next
    case True
    obtain imgs1 where m1: "tileRow tilemap s b numCols tileWidth r 0 minimap imgs = Some imgs1"
      and size1: "\<forall>q. width (imgs1 q) = width (imgs q) \<and> height (imgs1 q) = height (imgs q)"
      and frame1: "\<forall>q. q \<noteq> minimap \<longrightarrow> imgs1 q = imgs q"
      using tileRow_returns [OF "1.prems", of tilemap b numCols tileWidth r 0 minimap imgs]
      by blast
    from "1.IH" [OF True m1 "1.prems"] obtain imgs' where
      run: "tileRows tilemap s b numRows numCols tileWidth (r + 1) minimap imgs1 = Some imgs'"
      and size: "\<forall>q. width (imgs' q) = width (imgs1 q) \<and> height (imgs' q) = height (imgs1 q)"
      and frame: "\<forall>q. q \<noteq> minimap \<longrightarrow> imgs' q = imgs1 q"
      by blast
    have "tileRows tilemap s b numRows numCols tileWidth r minimap imgs = Some imgs'"
      using True m1 run by (subst tileRows.simps) simp
    moreover have "\<forall>q. width (imgs' q) = width (imgs q) \<and> height (imgs' q) = height (imgs q)"
      using size size1 by simp
    moreover have "\<forall>q. q \<noteq> minimap \<longrightarrow> imgs' q = imgs q"
      using frame frame1 by simp
    ultimately show ?thesis by blast
  qed
qed

section \<open>A blank source draws nothing\<close>

lemma renderColumn_blank:
  assumes run: "renderColumn source destination x y s i j imgs = Some imgs'"
    and blank: "\<forall>i j. getPixel (imgs source) i j = 0"
  shows "imgs' = imgs"
proof -
  have "(\<forall>i j. getPixel (imgs source) i j = 0) \<longrightarrow> imgs' = imgs"
  proof (rule renderColumn.raw_induct
      [where P = "\<lambda>source destination x y s i j imgs imgs'.
                    (\<forall>i j. getPixel (imgs source) i j = 0) \<longrightarrow> imgs' = imgs"
         and xa = "(((((((source, destination), x), y), s), i), j), imgs)" and ya = imgs',
         simplified])
    show "renderColumn source destination x y s i j imgs = Some imgs'" by (rule run)
  next
    fix f :: "ImageRef \<Rightarrow> ImageRef \<Rightarrow> int \<Rightarrow> int \<Rightarrow> int \<Rightarrow> int \<Rightarrow> int \<Rightarrow> Images \<Rightarrow> Images option"
      and source destination x y s i j imgs imgs'
    assume IH: "\<And>source destination x y s i j imgs imgs'.
        f source destination x y s i j imgs = Some imgs' \<Longrightarrow>
        (\<forall>i j. getPixel (imgs source) i j = 0) \<longrightarrow> imgs' = imgs"
      and step: "(if j < height (imgs source)
        then f source destination x y s i (j + shl 1 s)
          (if getPixel (imgs source) i j \<noteq> 0
           then imgs(destination :=
                  setPixel (imgs destination) (x + sar i s) (y + sar j s)
                    (getPixel (imgs source) i j))
           else imgs)
        else Some imgs) = Some imgs'"
    show "(\<forall>i j. getPixel (imgs source) i j = 0) \<longrightarrow> imgs' = imgs"
    proof
      assume z: "\<forall>i j. getPixel (imgs source) i j = 0"
      show "imgs' = imgs"
      proof (cases "j < height (imgs source)")
        case True
        then have "f source destination x y s i (j + shl 1 s) imgs = Some imgs'"
          using step z by simp
        then show ?thesis using IH z by blast
      next
        case False
        then show ?thesis using step by simp
      qed
    qed
  qed
  then show ?thesis using blank by simp
qed

lemma renderColumns_blank:
  assumes run: "renderColumns source destination x y s i imgs = Some imgs'"
    and blank: "\<forall>i j. getPixel (imgs source) i j = 0"
  shows "imgs' = imgs"
proof -
  have "(\<forall>i j. getPixel (imgs source) i j = 0) \<longrightarrow> imgs' = imgs"
  proof (rule renderColumns.raw_induct
      [where P = "\<lambda>source destination x y s i imgs imgs'.
                    (\<forall>i j. getPixel (imgs source) i j = 0) \<longrightarrow> imgs' = imgs"
         and xa = "((((((source, destination), x), y), s), i), imgs)" and ya = imgs',
         simplified])
    show "renderColumns source destination x y s i imgs = Some imgs'" by (rule run)
  next
    fix f :: "ImageRef \<Rightarrow> ImageRef \<Rightarrow> int \<Rightarrow> int \<Rightarrow> int \<Rightarrow> int \<Rightarrow> Images \<Rightarrow> Images option"
      and source destination x y s i imgs imgs'
    assume IH: "\<And>source destination x y s i imgs imgs'.
        f source destination x y s i imgs = Some imgs' \<Longrightarrow>
        (\<forall>i j. getPixel (imgs source) i j = 0) \<longrightarrow> imgs' = imgs"
      and step: "(if i < width (imgs source)
        then case renderColumn source destination x y s i 0 imgs of None \<Rightarrow> None
             | Some imgs1 \<Rightarrow> f source destination x y s (i + shl 1 s) imgs1
        else Some imgs) = Some imgs'"
    show "(\<forall>i j. getPixel (imgs source) i j = 0) \<longrightarrow> imgs' = imgs"
    proof
      assume z: "\<forall>i j. getPixel (imgs source) i j = 0"
      show "imgs' = imgs"
      proof (cases "i < width (imgs source)")
        case True
        then obtain imgs1 where d1: "renderColumn source destination x y s i 0 imgs = Some imgs1"
          "f source destination x y s (i + shl 1 s) imgs1 = Some imgs'"
          using step by (auto split: option.splits)
        have same: "imgs1 = imgs" using d1(1) z by (rule renderColumn_blank)
        then have "imgs' = imgs1" using IH d1(2) z by blast
        then show ?thesis using same by simp
      next
        case False
        then show ?thesis using step by simp
      qed
    qed
  qed
  then show ?thesis using blank by simp
qed

lemma renderScaledImage_blank:
  "renderScaledImage source destination x y s imgs = Some imgs' \<Longrightarrow>
   \<forall>i j. getPixel (imgs source) i j = 0 \<Longrightarrow> imgs' = imgs"
  unfolding renderScaledImage_def by (rule renderColumns_blank)

text \<open>
  C1, where source and destination are one buffer. The buffer at address \<open>0\<close> has the row
  \<open>1 2 3 4\<close>; drawn onto itself at origin \<open>(1, 0)\<close> and scale level \<open>0\<close>, the call
  returns, but source pixel \<open>(1, 0)\<close>, which is \<open>2\<close> and not zero, is not at destination
  coordinate \<open>(1 + (1 >> 0), 0 + (0 >> 0)) = (2, 0)\<close> afterwards: the pixel there is \<open>1\<close>.
  The first pass of the loop has written \<open>1\<close> over the \<open>2\<close> before the second one reads
  it, and so on along the row.
\<close>

theorem renderScaledImage_same_buffer:
  "scaleLevel 0 \<and> hostImage (images0 0) \<and>
   2 ^ nat 0 dvd (1::int) \<and> 2 ^ nat 0 dvd (0::int) \<and>
   getPixel (images0 0) 1 0 = 2 \<and> inRange (images0 0) (1 + sar 1 0) (0 + sar 0 0) \<and>
   (\<exists>imgs'. renderScaledImage 0 0 1 0 0 images0 = Some imgs' \<and>
      getPixel (imgs' 0) (1 + sar 1 0) (0 + sar 0 0) = 1 \<and>
      map (\<lambda>a. getPixel (imgs' 0) a 0) [0, 1, 2, 3] = [1, 1, 1, 1])"
proof -
  have run: "map_option (\<lambda>imgs'. map (\<lambda>a. getPixel (imgs' 0) a 0) [0, 1, 2, 3])
               (renderScaledImage 0 0 1 0 0 images0) = Some [1, 1, 1, 1]"
    by code_simp
  then obtain imgs' where r: "renderScaledImage 0 0 1 0 0 images0 = Some imgs'"
    and row: "map (\<lambda>a. getPixel (imgs' 0) a 0) [0, 1, 2, 3] = [1, 1, 1, 1]"
    by (cases "renderScaledImage 0 0 1 0 0 images0") auto
  have sh: "sar 1 0 = 1" "sar 0 0 = 0"
    by (simp_all add: sar_def ToInt32_def shiftCount_def)
  have "getPixel (imgs' 0) (1 + sar 1 0) (0 + sar 0 0) = 1"
    using row unfolding sh by simp
  moreover have "scaleLevel 0" "hostImage (images0 0)"
    by (simp_all add: scaleLevel_def hostImage_def images0_def src0_def)
  moreover have "getPixel (images0 0) 1 0 = 2" "inRange (images0 0) (1 + sar 1 0) (0 + sar 0 0)"
    unfolding sh by (simp_all add: images0_def src0_def getPixel_def inRange_def)
  ultimately show ?thesis using r row by simp
qed

text \<open>
  C1, for a destination that is another buffer than the source. For a scale level \<open>s\<close> and
  a source buffer of the host, \<open>renderScaledImage\<close> returns, with a destination of the
  same size as before, and
  \<^item> it reads the source only at coordinates that are both multiples of \<open>2^s\<close>: a source of
    the same size that agrees with it at those coordinates gives the same result;
  \<^item> a source pixel \<open>(i, j)\<close> at such coordinates that is not zero is at destination
    coordinate \<open>(x + (i >> s), y + (j >> s))\<close> afterwards (where that coordinate is inside
    the destination: the host drops a write outside it);
  \<^item> a destination position whose corresponding source pixel is zero, or does not exist,
    is unchanged;
  \<^item> for \<open>s = 0\<close> every source pixel that is not zero is copied 1:1.
\<close>

theorem renderScaledImage_samples:
  assumes "source \<noteq> destination" "scaleLevel s" "hostImage (imgs source)"
  shows "\<exists>imgs'. renderScaledImage source destination x y s imgs = Some imgs' \<and>
           width (imgs' destination) = width (imgs destination) \<and>
           height (imgs' destination) = height (imgs destination) \<and>
           (\<forall>source'. width source' = width (imgs source) \<and>
              height source' = height (imgs source) \<and>
              (\<forall>i j. 2 ^ nat s dvd i \<and> 2 ^ nat s dvd j \<longrightarrow>
                 getPixel source' i j = getPixel (imgs source) i j)
              \<longrightarrow> renderScaledImage source destination x y s (imgs(source := source')) =
                    Some (imgs'(source := source'))) \<and>
           (\<forall>i j. 2 ^ nat s dvd i \<and> 2 ^ nat s dvd j \<and> getPixel (imgs source) i j \<noteq> 0 \<and>
              inRange (imgs destination) (x + sar i s) (y + sar j s)
              \<longrightarrow> getPixel (imgs' destination) (x + sar i s) (y + sar j s) =
                    getPixel (imgs source) i j) \<and>
           (\<forall>a b. getPixel (imgs source) ((a - x) * 2 ^ nat s) ((b - y) * 2 ^ nat s) = 0
              \<longrightarrow> getPixel (imgs' destination) a b = getPixel (imgs destination) a b) \<and>
           (s = 0 \<longrightarrow> (\<forall>i j. getPixel (imgs source) i j \<noteq> 0 \<and>
              inRange (imgs destination) (x + i) (y + j)
              \<longrightarrow> getPixel (imgs' destination) (x + i) (y + j) = getPixel (imgs source) i j))"
proof -
  let ?src = "imgs source"
  let ?d = "imgs destination"
  let ?d' = "renderScaled_spec ?src ?d x y s"
  let ?imgs' = "imgs(destination := ?d')"
  have sep: "source \<noteq> destination" by (rule assms(1))
  have bound: "width ?src \<le> 2 ^ 31" "height ?src \<le> 2 ^ 31"
    using assms(3) by (simp_all add: hostImage_def)
  have s: "0 \<le> s" "s \<le> 30"
    using assms(2) by (simp_all add: scaleLevel_def)
  have run: "renderScaledImage source destination x y s imgs = Some ?imgs'"
    using sep s bound by (rule renderScaledImage_spec)
  have dims: "width ?d' = width ?d" "height ?d' = height ?d"
    by (simp_all add: renderScaled_spec_def)
  have reads: "renderScaledImage source destination x y s (imgs(source := source')) =
               Some (?imgs'(source := source'))"
    if "width source' = width ?src \<and> height source' = height ?src \<and>
        (\<forall>i j. 2 ^ nat s dvd i \<and> 2 ^ nat s dvd j \<longrightarrow> getPixel source' i j = getPixel ?src i j)"
    for source'
  proof -
    let ?imgs1 = "imgs(source := source')"
    have b1: "width (?imgs1 source) \<le> 2 ^ 31" "height (?imgs1 source) \<le> 2 ^ 31"
      using bound that by simp_all
    have "renderScaledImage source destination x y s ?imgs1 =
          Some (?imgs1(destination := renderScaled_spec (?imgs1 source) (?imgs1 destination) x y s))"
      using sep s b1 by (rule renderScaledImage_spec)
    moreover have "renderScaled_spec source' ?d x y s = ?d'"
      using that by (intro renderScaled_spec_cong) simp_all
    moreover have "?imgs1(destination := ?d') = ?imgs'(source := source')"
      using sep by (simp add: fun_upd_twist)
    ultimately show ?thesis using sep by simp
  qed
  have writes: "getPixel ?d' (x + sar i s) (y + sar j s) = getPixel ?src i j"
    if "2 ^ nat s dvd i \<and> 2 ^ nat s dvd j \<and> getPixel ?src i j \<noteq> 0 \<and>
        inRange ?d (x + sar i s) (y + sar j s)" for i j
  proof -
    from that obtain k l where kl: "i = k * 2 ^ nat s" "j = l * 2 ^ nat s"
      by (auto simp: dvd_def mult.commute)
    have range: "0 \<le> i" "i < 2 ^ 31" "0 \<le> j" "j < 2 ^ 31"
      using that bound by (auto simp: getPixel_def inRange_def split: if_splits)
    then have "0 \<le> k" "0 \<le> l" using kl by (simp_all add: zero_le_mult_iff)
    then have "sar i s = k" "sar j s = l"
      using range s unfolding kl by (simp_all add: sar_multiple)
    then show ?thesis using that kl by (simp add: getPixel_renderScaled_spec)
  qed
  have keeps: "getPixel ?d' a b = getPixel ?d a b"
    if "getPixel ?src ((a - x) * 2 ^ nat s) ((b - y) * 2 ^ nat s) = 0" for a b
    using that by (simp add: getPixel_renderScaled_spec)
  have copy: "getPixel ?d' (x + i) (y + j) = getPixel ?src i j"
    if "s = 0" "getPixel ?src i j \<noteq> 0 \<and> inRange ?d (x + i) (y + j)" for i j
    using that by (simp add: getPixel_renderScaled_spec)
  have at: "?imgs' destination = ?d'" by simp
  show ?thesis
  proof (intro exI [of _ ?imgs'] conjI allI impI)
    show "renderScaledImage source destination x y s imgs = Some ?imgs'" by (rule run)
    show "width (?imgs' destination) = width ?d" "height (?imgs' destination) = height ?d"
      unfolding at by (rule dims)+
  next
    fix source'
    assume "width source' = width ?src \<and> height source' = height ?src \<and>
        (\<forall>i j. 2 ^ nat s dvd i \<and> 2 ^ nat s dvd j \<longrightarrow> getPixel source' i j = getPixel ?src i j)"
    then show "renderScaledImage source destination x y s (imgs(source := source')) =
               Some (?imgs'(source := source'))" by (rule reads)
  next
    fix i j
    assume "2 ^ nat s dvd i \<and> 2 ^ nat s dvd j \<and> getPixel ?src i j \<noteq> 0 \<and>
        inRange ?d (x + sar i s) (y + sar j s)"
    then show "getPixel (?imgs' destination) (x + sar i s) (y + sar j s) = getPixel ?src i j"
      unfolding at by (rule writes)
  next
    fix a b
    assume "getPixel ?src ((a - x) * 2 ^ nat s) ((b - y) * 2 ^ nat s) = 0"
    then show "getPixel (?imgs' destination) a b = getPixel ?d a b"
      unfolding at by (rule keeps)
  next
    fix i j
    assume "s = 0" "getPixel ?src i j \<noteq> 0 \<and> inRange ?d (x + i) (y + j)"
    then show "getPixel (?imgs' destination) (x + i) (y + j) = getPixel ?src i j"
      unfolding at by (rule copy)
  qed
qed

theorem renderScaledImage_samples_witness:
  "(0::ImageRef) \<noteq> 8 \<and> scaleLevel 1 \<and> hostImage (images0 0) \<and>
   (\<exists>imgs'. renderScaledImage 0 8 1 0 1 images0 = Some imgs' \<and>
      getPixel (imgs' 8) 2 0 = 3 \<and> getPixel (imgs' 8) 1 1 = 0)"
proof -
  have h: "(0::ImageRef) \<noteq> 8" "scaleLevel 1" "hostImage (images0 0)"
    by (simp_all add: scaleLevel_def hostImage_def images0_def src0_def)
  obtain imgs' where d': "renderScaledImage 0 8 1 0 1 images0 = Some imgs'"
    and w: "\<forall>i j. 2 ^ nat 1 dvd i \<and> 2 ^ nat 1 dvd j \<and> getPixel (images0 0) i j \<noteq> 0 \<and>
              inRange (images0 8) (1 + sar i 1) (0 + sar j 1)
              \<longrightarrow> getPixel (imgs' 8) (1 + sar i 1) (0 + sar j 1) = getPixel (images0 0) i j"
    and k: "\<forall>a b. getPixel (images0 0) ((a - 1) * 2 ^ nat 1) ((b - 0) * 2 ^ nat 1) = 0
              \<longrightarrow> getPixel (imgs' 8) a b = getPixel (images0 8) a b"
    using renderScaledImage_samples
            [where source = 0 and destination = 8 and s = 1 and imgs = images0 and x = 1 and y = 0]
          h
    by blast
  have "getPixel (imgs' 8) 2 0 = 3"
    using w [rule_format, of 2 0]
    by (simp add: images0_def src0_def getPixel_def inRange_def create_def sar_def ToInt32_def
        shiftCount_def)
  moreover have "getPixel (imgs' 8) 1 1 = 0"
    using k [rule_format, of 1 1]
    by (simp add: images0_def src0_def getPixel_def inRange_def create_def)
  ultimately show ?thesis using h d' by simp
qed

text \<open>
  C3. With a tile grid, for a scale level \<open>s\<close> and any border width \<open>b\<close>,
  \<open>getMinimapObject\<close> returns an instance whose image is
  \<open>(numCols * tileWidth >> s) + 2 * b\<close> wide and \<open>(numRows * tileWidth >> s) + 2 * b\<close>
  high, where \<open>tileWidth\<close> is \<open>2\<close> to the scale of the grid and \<open>numCols\<close>,
  \<open>numRows\<close> are the size of the grid in tiles, which the source takes as the area of
  the grid shifted right by its scale. The image is a buffer that was not there before.
\<close>

theorem getMinimapObject_size:
  assumes "scaleLevel s" "scaleLevel (scaleT tilemap)"
  shows "\<exists>mm hp'. getMinimapObject (Some tilemap) s b c hp = Some (mm, hp') \<and>
           imageM mm = nextImage hp \<and> imageM mm < nextImage hp' \<and>
           width (images hp' (imageM mm)) =
             sar (sar (areaWidth tilemap) (scaleT tilemap) * 2 ^ nat (scaleT tilemap)) s + 2 * b \<and>
           height (images hp' (imageM mm)) =
             sar (sar (areaHeight tilemap) (scaleT tilemap) * 2 ^ nat (scaleT tilemap)) s + 2 * b"
proof -
  define numRows where "numRows = sar (areaHeight tilemap) (scaleT tilemap)"
  define numCols where "numCols = sar (areaWidth tilemap) (scaleT tilemap)"
  define tileWidth where "tileWidth = shl 1 (scaleT tilemap)"
  define minimap where "minimap = nextImage hp"
  define hp1 where "hp1 = hp\<lparr>images := (images hp)(minimap :=
                       create (sar (numCols * tileWidth) s + b * 2)
                              (sar (numRows * tileWidth) s + b * 2)),
                     nextImage := Suc minimap\<rparr>"
  define imgs where "imgs = (if b > 0 then (images hp1)(minimap := fill (images hp1 minimap) c)
                             else images hp1)"
  have tw: "tileWidth = 2 ^ nat (scaleT tilemap)"
    unfolding tileWidth_def using assms(2) by (intro shl_one) (simp_all add: scaleLevel_def)
  have size: "width (imgs minimap) = sar (numCols * tileWidth) s + b * 2"
    "height (imgs minimap) = sar (numRows * tileWidth) s + b * 2"
    by (simp_all add: imgs_def hp1_def create_def fill_def)
  have "0 < shl 1 s" using assms(1) by (intro shl_one_pos) (simp_all add: scaleLevel_def)
  then obtain imgs' where m:
    "tileRows tilemap s b numRows numCols tileWidth 0 minimap imgs = Some imgs'"
    "\<forall>q. width (imgs' q) = width (imgs q) \<and> height (imgs' q) = height (imgs q)"
    using tileRows_returns [of s tilemap b numRows numCols tileWidth 0 minimap imgs] by blast
  have "getMinimapObject (Some tilemap) s b c hp =
        Some (\<lparr>imageM = minimap, scaleM = s, borderWidthM = b, borderColorM = c\<rparr>,
              hp1\<lparr>images := imgs'\<rparr>)"
    using m(1)
    unfolding getMinimapObject_def image_create_def Let_def numRows_def numCols_def
        tileWidth_def imgs_def hp1_def minimap_def by simp
  moreover have "nextImage (hp1\<lparr>images := imgs'\<rparr>) = Suc minimap"
    by (simp add: hp1_def)
  ultimately show ?thesis
    using m(2) size tw by (simp add: numRows_def numCols_def minimap_def)
qed

theorem getMinimapObject_size_witness:
  "scaleLevel Half \<and> scaleLevel (scaleT grid44) \<and>
   (\<exists>mm hp'. getMinimapObject (Some grid44) Half 2 5 heap0 = Some (mm, hp') \<and>
      imageM mm = 9 \<and>
      width (images hp' (imageM mm)) = 20 \<and> height (images hp' (imageM mm)) = 20)"
proof -
  have h: "scaleLevel Half" "scaleLevel (scaleT grid44)"
    by (simp_all add: scaleLevel_def Half_def grid44_def)
  have sz: "sar (sar (areaWidth grid44) (scaleT grid44) * 2 ^ nat (scaleT grid44)) Half + 2 * 2 = 20"
    "sar (sar (areaHeight grid44) (scaleT grid44) * 2 ^ nat (scaleT grid44)) Half + 2 * 2 = 20"
    by (simp_all add: grid44_def sar_def ToInt32_def shiftCount_def Half_def)
  obtain mm hp' where "getMinimapObject (Some grid44) Half 2 5 heap0 = Some (mm, hp')"
    "imageM mm = nextImage heap0"
    "width (images hp' (imageM mm)) = 20" "height (images hp' (imageM mm)) = 20"
    using getMinimapObject_size [OF h, of 2 5 heap0] unfolding sz by blast
  moreover have "nextImage heap0 = 9" by (simp add: heap0_def)
  ultimately show ?thesis using h by simp
qed

text \<open>
  C7. Without a tile grid, whatever the scale level, the border width and the border color,
  \<open>getMinimapObject\<close> returns: the instance has a blank image of one pixel by one pixel,
  a buffer that was not there before, and carries the three parameters as they were given.
\<close>

theorem getMinimapObject_no_grid:
  "\<exists>mm hp'. getMinimapObject None s b c hp = Some (mm, hp') \<and>
      imageM mm = nextImage hp \<and> imageM mm < nextImage hp' \<and>
      width (images hp' (imageM mm)) = 1 \<and> height (images hp' (imageM mm)) = 1 \<and>
      (\<forall>x y. getPixel (images hp' (imageM mm)) x y = 0) \<and>
      scaleM mm = s \<and> borderWidthM mm = b \<and> borderColorM mm = c"
  by (simp add: getMinimapObject_def image_create_def create_def getPixel_def)

section \<open>Overlaying a sprite\<close>

lemma includeSprite_call:
  "includeSprite minimap sprite spriteScale imgs =
     renderScaledImage (imageS sprite) (imageM minimap)
       (sar (trunc (xS sprite)) (scaleM minimap)
          - sar (trunc (of_int (widthS sprite) / 2)) (max (scaleM minimap - spriteScale) 0)
          + borderWidthM minimap)
       (sar (trunc (yS sprite)) (scaleM minimap)
          - sar (trunc (of_int (heightS sprite) / 2)) (max (scaleM minimap - spriteScale) 0)
          + borderWidthM minimap)
       (max (scaleM minimap - spriteScale) 0) imgs"
  by (simp add: includeSprite_def Let_def)

lemma includeSprite_returns:
  assumes "scaleM minimap - spriteScale \<le> 30"
  shows "\<exists>imgs'. includeSprite minimap sprite spriteScale imgs = Some imgs' \<and>
           (\<forall>r. width (imgs' r) = width (imgs r) \<and> height (imgs' r) = height (imgs r)) \<and>
           (\<forall>r. r \<noteq> imageM minimap \<longrightarrow> imgs' r = imgs r)"
proof -
  have "0 \<le> max (scaleM minimap - spriteScale) 0" "max (scaleM minimap - spriteScale) 0 \<le> 30"
    using assms by simp_all
  then have "0 < shl 1 (max (scaleM minimap - spriteScale) 0)" by (rule shl_one_pos)
  then show ?thesis unfolding includeSprite_call by (rule renderScaledImage_returns)
qed

lemma includeSprite_spec:
  assumes "imageS sprite \<noteq> imageM minimap" "scaleM minimap - spriteScale \<le> 30"
    "hostImage (imgs (imageS sprite))"
  shows "includeSprite minimap sprite spriteScale imgs =
      Some (imgs(imageM minimap :=
        renderScaled_spec (imgs (imageS sprite)) (imgs (imageM minimap))
          (sar (trunc (xS sprite)) (scaleM minimap)
             - sar (trunc (of_int (widthS sprite) / 2)) (max (scaleM minimap - spriteScale) 0)
             + borderWidthM minimap)
          (sar (trunc (yS sprite)) (scaleM minimap)
             - sar (trunc (of_int (heightS sprite) / 2)) (max (scaleM minimap - spriteScale) 0)
             + borderWidthM minimap)
          (max (scaleM minimap - spriteScale) 0)))"
proof -
  let ?e = "max (scaleM minimap - spriteScale) 0"
  have e: "0 \<le> ?e" "?e \<le> 30" using assms(2) by simp_all
  have w: "width (imgs (imageS sprite)) \<le> 2 ^ 31" "height (imgs (imageS sprite)) \<le> 2 ^ 31"
    using assms(3) by (simp_all add: hostImage_def)
  show ?thesis
    unfolding includeSprite_call using assms(1) e w by (rule renderScaledImage_spec)
qed

text \<open>
  C5. \<open>includeSprite\<close> draws the image of the sprite with the scale
  \<open>max (m - p) 0\<close>, where \<open>m\<close> is the scale of the minimap and \<open>p\<close> the scale asked
  for the sprite: that is the scale of the one call of the renderer it makes, at the origin
  the source computes. That scale is never negative; for a minimap at scale 3 and a sprite
  asked at scale 5 it is \<open>0\<close>. Where it is a scale level the call returns, and then, the
  image of the sprite being a buffer of the host and another one than the image of the
  minimap, pixel \<open>(k, l)\<close> from the origin is the pixel \<open>(k * 2^scale, l * 2^scale)\<close> of
  the sprite's image, wherever that one is there and not zero.
\<close>

theorem includeSprite_effective_scale:
  "includeSprite minimap sprite spriteScale imgs =
     renderScaledImage (imageS sprite) (imageM minimap)
       (sar (trunc (xS sprite)) (scaleM minimap)
          - sar (trunc (of_int (widthS sprite) / 2)) (max (scaleM minimap - spriteScale) 0)
          + borderWidthM minimap)
       (sar (trunc (yS sprite)) (scaleM minimap)
          - sar (trunc (of_int (heightS sprite) / 2)) (max (scaleM minimap - spriteScale) 0)
          + borderWidthM minimap)
       (max (scaleM minimap - spriteScale) 0) imgs \<and>
   0 \<le> max (scaleM minimap - spriteScale) 0 \<and>
   (scaleM minimap = Eighth \<and> spriteScale = 5 \<longrightarrow> max (scaleM minimap - spriteScale) 0 = 0) \<and>
   (scaleLevel (max (scaleM minimap - spriteScale) 0) \<longrightarrow>
      (\<exists>imgs'. includeSprite minimap sprite spriteScale imgs = Some imgs' \<and>
         (imageS sprite \<noteq> imageM minimap \<and> hostImage (imgs (imageS sprite)) \<longrightarrow>
            (\<forall>k l. sampled (imgs (imageS sprite)) (max (scaleM minimap - spriteScale) 0) k l \<and>
                inRange (imgs (imageM minimap))
                  (sar (trunc (xS sprite)) (scaleM minimap)
                     - sar (trunc (of_int (widthS sprite) / 2))
                         (max (scaleM minimap - spriteScale) 0)
                     + borderWidthM minimap + k)
                  (sar (trunc (yS sprite)) (scaleM minimap)
                     - sar (trunc (of_int (heightS sprite) / 2))
                         (max (scaleM minimap - spriteScale) 0)
                     + borderWidthM minimap + l) \<longrightarrow>
                getPixel (imgs' (imageM minimap))
                  (sar (trunc (xS sprite)) (scaleM minimap)
                     - sar (trunc (of_int (widthS sprite) / 2))
                         (max (scaleM minimap - spriteScale) 0)
                     + borderWidthM minimap + k)
                  (sar (trunc (yS sprite)) (scaleM minimap)
                     - sar (trunc (of_int (heightS sprite) / 2))
                         (max (scaleM minimap - spriteScale) 0)
                     + borderWidthM minimap + l) =
                getPixel (imgs (imageS sprite))
                  (k * 2 ^ nat (max (scaleM minimap - spriteScale) 0))
                  (l * 2 ^ nat (max (scaleM minimap - spriteScale) 0))))))"
proof -
  let ?e = "max (scaleM minimap - spriteScale) 0"
  let ?X = "sar (trunc (xS sprite)) (scaleM minimap)
              - sar (trunc (of_int (widthS sprite) / 2)) ?e + borderWidthM minimap"
  let ?Y = "sar (trunc (yS sprite)) (scaleM minimap)
              - sar (trunc (of_int (heightS sprite) / 2)) ?e + borderWidthM minimap"
  have call: "includeSprite minimap sprite spriteScale imgs =
     renderScaledImage (imageS sprite) (imageM minimap) ?X ?Y ?e imgs"
    by (rule includeSprite_call)
  have clamp: "scaleM minimap = Eighth \<and> spriteScale = 5 \<longrightarrow> ?e = 0"
    by (simp add: Eighth_def)
  have draws: "\<exists>imgs'. includeSprite minimap sprite spriteScale imgs = Some imgs' \<and>
         (imageS sprite \<noteq> imageM minimap \<and> hostImage (imgs (imageS sprite)) \<longrightarrow>
            (\<forall>k l. sampled (imgs (imageS sprite)) ?e k l \<and>
                inRange (imgs (imageM minimap)) (?X + k) (?Y + l) \<longrightarrow>
                getPixel (imgs' (imageM minimap)) (?X + k) (?Y + l) =
                getPixel (imgs (imageS sprite)) (k * 2 ^ nat ?e) (l * 2 ^ nat ?e)))"
    if lvl: "scaleLevel ?e"
  proof -
    have le: "scaleM minimap - spriteScale \<le> 30" using lvl by (simp add: scaleLevel_def)
    obtain imgs' where run: "includeSprite minimap sprite spriteScale imgs = Some imgs'"
      using includeSprite_returns [OF le, of sprite imgs] by blast
    have px: "getPixel (imgs' (imageM minimap)) (?X + k) (?Y + l) =
              getPixel (imgs (imageS sprite)) (k * 2 ^ nat ?e) (l * 2 ^ nat ?e)"
      if sep: "imageS sprite \<noteq> imageM minimap \<and> hostImage (imgs (imageS sprite))"
        and hit: "sampled (imgs (imageS sprite)) ?e k l \<and>
                  inRange (imgs (imageM minimap)) (?X + k) (?Y + l)"
      for k l
    proof -
      have "includeSprite minimap sprite spriteScale imgs =
            Some (imgs(imageM minimap :=
              renderScaled_spec (imgs (imageS sprite)) (imgs (imageM minimap)) ?X ?Y ?e))"
        using sep le by (intro includeSprite_spec) simp_all
      then have "imgs' (imageM minimap) =
            renderScaled_spec (imgs (imageS sprite)) (imgs (imageM minimap)) ?X ?Y ?e"
        using run by auto
      then show ?thesis using hit by (simp add: getPixel_renderScaled_spec sampled_def)
    qed
    show ?thesis
    proof (intro exI [of _ imgs'] conjI allI impI)
      show "includeSprite minimap sprite spriteScale imgs = Some imgs'" by (rule run)
    next
      fix k l
      assume "imageS sprite \<noteq> imageM minimap \<and> hostImage (imgs (imageS sprite))"
        and "sampled (imgs (imageS sprite)) ?e k l \<and>
             inRange (imgs (imageM minimap)) (?X + k) (?Y + l)"
      then show "getPixel (imgs' (imageM minimap)) (?X + k) (?Y + l) =
              getPixel (imgs (imageS sprite)) (k * 2 ^ nat ?e) (l * 2 ^ nat ?e)"
        by (rule px)
    qed
  qed
  show ?thesis
  proof (intro conjI)
    show "includeSprite minimap sprite spriteScale imgs =
     renderScaledImage (imageS sprite) (imageM minimap) ?X ?Y ?e imgs" by (rule call)
    show "0 \<le> ?e" by simp
    show "scaleM minimap = Eighth \<and> spriteScale = 5 \<longrightarrow> ?e = 0" by (rule clamp)
    show "scaleLevel ?e \<longrightarrow>
      (\<exists>imgs'. includeSprite minimap sprite spriteScale imgs = Some imgs' \<and>
         (imageS sprite \<noteq> imageM minimap \<and> hostImage (imgs (imageS sprite)) \<longrightarrow>
            (\<forall>k l. sampled (imgs (imageS sprite)) ?e k l \<and>
                inRange (imgs (imageM minimap)) (?X + k) (?Y + l) \<longrightarrow>
                getPixel (imgs' (imageM minimap)) (?X + k) (?Y + l) =
                getPixel (imgs (imageS sprite)) (k * 2 ^ nat ?e) (l * 2 ^ nat ?e))))"
      using draws by blast
  qed
qed

theorem includeSprite_effective_scale_witness:
  "scaleM minimap0 = Eighth \<and> scaleLevel (max (scaleM minimap0 - 5) 0) \<and>
   imageS sprite0 \<noteq> imageM minimap0 \<and> hostImage (images0 (imageS sprite0)) \<and>
   sampled (images0 (imageS sprite0)) 0 3 3 \<and> inRange (images0 (imageM minimap0)) 5 4 \<and>
   includeSprite minimap0 sprite0 5 images0 =
     renderScaledImage (imageS sprite0) (imageM minimap0) 2 1 0 images0 \<and>
   (\<exists>imgs'. includeSprite minimap0 sprite0 5 images0 = Some imgs' \<and>
      getPixel (imgs' (imageM minimap0)) 5 4 = 9)"
proof -
  have e: "max (scaleM minimap0 - 5) 0 = 0"
    by (simp add: minimap0_def Eighth_def)
  have x: "sar (trunc (xS sprite0)) (scaleM minimap0)
             - sar (trunc (of_int (widthS sprite0) / 2)) 0 + borderWidthM minimap0 = 2"
    by code_simp
  have y: "sar (trunc (yS sprite0)) (scaleM minimap0)
             - sar (trunc (of_int (heightS sprite0) / 2)) 0 + borderWidthM minimap0 = 1"
    by code_simp
  have h: "scaleM minimap0 = Eighth" "scaleLevel 0"
    "imageS sprite0 \<noteq> imageM minimap0 \<and> hostImage (images0 (imageS sprite0))"
    "sampled (images0 (imageS sprite0)) 0 3 3 \<and> inRange (images0 (imageM minimap0)) (2 + 3) (1 + 3)"
    by (simp_all add: minimap0_def sprite0_def images0_def scaleLevel_def hostImage_def
        sampled_def inRange_def getPixel_def create_def)
  have src: "getPixel (images0 (imageS sprite0)) (3 * 2 ^ nat 0) (3 * 2 ^ nat 0) = 9"
    by (simp add: sprite0_def images0_def getPixel_def inRange_def)
  note t = includeSprite_effective_scale [of minimap0 sprite0 5 images0, unfolded e x y]
  have call: "includeSprite minimap0 sprite0 5 images0 =
     renderScaledImage (imageS sprite0) (imageM minimap0) 2 1 0 images0"
    using t by blast
  obtain imgs' where run: "includeSprite minimap0 sprite0 5 images0 = Some imgs'"
    and px: "imageS sprite0 \<noteq> imageM minimap0 \<and> hostImage (images0 (imageS sprite0)) \<longrightarrow>
            (\<forall>k l. sampled (images0 (imageS sprite0)) 0 k l \<and>
                inRange (images0 (imageM minimap0)) (2 + k) (1 + l) \<longrightarrow>
                getPixel (imgs' (imageM minimap0)) (2 + k) (1 + l) =
                getPixel (images0 (imageS sprite0)) (k * 2 ^ nat 0) (l * 2 ^ nat 0))"
    using t h(2) by blast
  have "getPixel (imgs' (imageM minimap0)) (2 + 3) (1 + 3) = 9"
    using px [rule_format, OF h(3) h(4)] src by simp
  then have "\<exists>imgs'. includeSprite minimap0 sprite0 5 images0 = Some imgs' \<and>
      getPixel (imgs' (imageM minimap0)) 5 4 = 9"
    using run by simp
  moreover have "sampled (images0 (imageS sprite0)) 0 3 3 \<and>
      inRange (images0 (imageM minimap0)) 5 4"
    using h(4) by simp
  moreover have "scaleLevel (max (scaleM minimap0 - 5) 0)"
    using h(2) unfolding e .
  ultimately show ?thesis using h(1) h(3) call by blast
qed

text \<open>
  C6, for a sprite that shows the image of the minimap itself, as the sprite of
  \<open>createMinimapSprite\<close> does. The sprite is not destroyed, the origin is \<open>(1, 0)\<close> and
  the scale \<open>0\<close>. The image of the sprite, the row \<open>1 2 3 4\<close>, stamped at that origin
  on the image of the minimap gives the row \<open>1 1 2 3\<close>; \<open>includeSprite\<close> returns with the
  row \<open>1 1 1 1\<close>.
\<close>

theorem includeSprite_own_image:
  "\<not> isDestroyed (Some ownSprite) \<and> imageS ownSprite = imageM ownMinimap \<and>
   scaleM ownMinimap \<le> 30 \<and> (0::int) \<le> 0 \<and> hostImage (images0 (imageS ownSprite)) \<and>
   max (scaleM ownMinimap - 0) 0 = 0 \<and>
   sar (trunc (xS ownSprite)) (scaleM ownMinimap)
     - sar (trunc (of_int (widthS ownSprite) / 2)) 0 + borderWidthM ownMinimap = 1 \<and>
   sar (trunc (yS ownSprite)) (scaleM ownMinimap)
     - sar (trunc (of_int (heightS ownSprite) / 2)) 0 + borderWidthM ownMinimap = 0 \<and>
   map (\<lambda>a. getPixel (renderScaled_spec (images0 (imageS ownSprite))
                        (images0 (imageM ownMinimap)) 1 0 0) a 0) [0, 1, 2, 3] = [1, 1, 2, 3] \<and>
   (\<exists>imgs'. includeSprite ownMinimap ownSprite 0 images0 = Some imgs' \<and>
      map (\<lambda>a. getPixel (imgs' (imageM ownMinimap)) a 0) [0, 1, 2, 3] = [1, 1, 1, 1])"
proof -
  have run: "map_option (\<lambda>imgs'. map (\<lambda>a. getPixel (imgs' (imageM ownMinimap)) a 0) [0, 1, 2, 3])
               (includeSprite ownMinimap ownSprite 0 images0) = Some [1, 1, 1, 1]"
    by code_simp
  then have "\<exists>imgs'. includeSprite ownMinimap ownSprite 0 images0 = Some imgs' \<and>
      map (\<lambda>a. getPixel (imgs' (imageM ownMinimap)) a 0) [0, 1, 2, 3] = [1, 1, 1, 1]"
    by (cases "includeSprite ownMinimap ownSprite 0 images0") auto
  moreover have "\<not> isDestroyed (Some ownSprite)"
    by (simp add: isDestroyed_def ownSprite_def Flag_Destroyed_def ToInt32_def)
  moreover have "imageS ownSprite = imageM ownMinimap" "scaleM ownMinimap \<le> 30"
    "hostImage (images0 (imageS ownSprite))" "max (scaleM ownMinimap - 0) 0 = 0"
    by (simp_all add: ownSprite_def ownMinimap_def Original_def hostImage_def images0_def
        src0_def)
  moreover have "sar (trunc (xS ownSprite)) (scaleM ownMinimap)
     - sar (trunc (of_int (widthS ownSprite) / 2)) 0 + borderWidthM ownMinimap = 1"
    by code_simp
  moreover have "sar (trunc (yS ownSprite)) (scaleM ownMinimap)
     - sar (trunc (of_int (heightS ownSprite) / 2)) 0 + borderWidthM ownMinimap = 0"
    by code_simp
  moreover have "map (\<lambda>a. getPixel (renderScaled_spec (images0 (imageS ownSprite))
                        (images0 (imageM ownMinimap)) 1 0 0) a 0) [0, 1, 2, 3] = [1, 1, 2, 3]"
    by code_simp
  ultimately show ?thesis by simp
qed

text \<open>
  C6, for a sprite whose image is another buffer than the image of the minimap.
  \<open>includeSprite\<close> stamps the image of the sprite with its origin at
  \<open>x = (sprite.x >> minimap.scale) - ((sprite.width / 2) >> scale) + minimap.borderWidth\<close>
  and \<open>y\<close> the same from \<open>sprite.y\<close> and \<open>sprite.height\<close>, where \<open>scale\<close> is the
  effective scale: the position of the sprite on the minimap, less half its size on the
  minimap, inside the border. The first half of the theorem is the call the source makes,
  whatever the buffers; the second is the image that comes of it for scale levels and a
  sprite image of the host, the two buffers being two.
\<close>

theorem includeSprite_placement:
  "includeSprite minimap sprite spriteScale imgs =
     renderScaledImage (imageS sprite) (imageM minimap)
       (sar (trunc (xS sprite)) (scaleM minimap)
          - sar (trunc (of_int (widthS sprite) / 2)) (max (scaleM minimap - spriteScale) 0)
          + borderWidthM minimap)
       (sar (trunc (yS sprite)) (scaleM minimap)
          - sar (trunc (of_int (heightS sprite) / 2)) (max (scaleM minimap - spriteScale) 0)
          + borderWidthM minimap)
       (max (scaleM minimap - spriteScale) 0) imgs \<and>
   (imageS sprite \<noteq> imageM minimap \<and> scaleM minimap \<le> 30 \<and> 0 \<le> spriteScale \<and>
    hostImage (imgs (imageS sprite)) \<longrightarrow>
    includeSprite minimap sprite spriteScale imgs =
      Some (imgs(imageM minimap :=
        renderScaled_spec (imgs (imageS sprite)) (imgs (imageM minimap))
          (sar (trunc (xS sprite)) (scaleM minimap)
             - sar (trunc (of_int (widthS sprite) / 2)) (max (scaleM minimap - spriteScale) 0)
             + borderWidthM minimap)
          (sar (trunc (yS sprite)) (scaleM minimap)
             - sar (trunc (of_int (heightS sprite) / 2)) (max (scaleM minimap - spriteScale) 0)
             + borderWidthM minimap)
          (max (scaleM minimap - spriteScale) 0))))"
proof (intro conjI impI)
  show "includeSprite minimap sprite spriteScale imgs =
     renderScaledImage (imageS sprite) (imageM minimap)
       (sar (trunc (xS sprite)) (scaleM minimap)
          - sar (trunc (of_int (widthS sprite) / 2)) (max (scaleM minimap - spriteScale) 0)
          + borderWidthM minimap)
       (sar (trunc (yS sprite)) (scaleM minimap)
          - sar (trunc (of_int (heightS sprite) / 2)) (max (scaleM minimap - spriteScale) 0)
          + borderWidthM minimap)
       (max (scaleM minimap - spriteScale) 0) imgs"
    by (rule includeSprite_call)
next
  assume h: "imageS sprite \<noteq> imageM minimap \<and> scaleM minimap \<le> 30 \<and> 0 \<le> spriteScale \<and>
             hostImage (imgs (imageS sprite))"
  then have "scaleM minimap - spriteScale \<le> 30" by simp
  then show "includeSprite minimap sprite spriteScale imgs =
      Some (imgs(imageM minimap :=
        renderScaled_spec (imgs (imageS sprite)) (imgs (imageM minimap))
          (sar (trunc (xS sprite)) (scaleM minimap)
             - sar (trunc (of_int (widthS sprite) / 2)) (max (scaleM minimap - spriteScale) 0)
             + borderWidthM minimap)
          (sar (trunc (yS sprite)) (scaleM minimap)
             - sar (trunc (of_int (heightS sprite) / 2)) (max (scaleM minimap - spriteScale) 0)
             + borderWidthM minimap)
          (max (scaleM minimap - spriteScale) 0)))"
    using h by (intro includeSprite_spec) simp_all
qed

theorem includeSprite_placement_witness:
  "imageS sprite0 \<noteq> imageM minimap0 \<and> scaleM minimap0 \<le> 30 \<and> 0 \<le> Double \<and>
   hostImage (images0 (imageS sprite0)) \<and>
   includeSprite minimap0 sprite0 Double images0 =
     Some (images0(imageM minimap0 :=
       renderScaled_spec (images0 (imageS sprite0)) (images0 (imageM minimap0)) 4 3 2))"
proof -
  have h: "imageS sprite0 \<noteq> imageM minimap0 \<and> scaleM minimap0 \<le> 30 \<and> 0 \<le> Double \<and>
           hostImage (images0 (imageS sprite0))"
    by (simp add: minimap0_def Eighth_def Double_def sprite0_def hostImage_def images0_def)
  have e: "max (scaleM minimap0 - Double) 0 = 2"
    by (simp add: minimap0_def Eighth_def Double_def)
  have x: "sar (trunc (xS sprite0)) (scaleM minimap0)
             - sar (trunc (of_int (widthS sprite0) / 2)) 2 + borderWidthM minimap0 = 4"
    by code_simp
  have y: "sar (trunc (yS sprite0)) (scaleM minimap0)
             - sar (trunc (of_int (heightS sprite0) / 2)) 2 + borderWidthM minimap0 = 3"
    by code_simp
  show ?thesis
    using h includeSprite_placement [of minimap0 sprite0 Double images0, THEN conjunct2,
        rule_format, OF h]
    unfolding e x y by simp
qed

text \<open>
  C8. A sprite whose image has only zero pixels leaves the image of the minimap as it is,
  and every other image, whatever the minimap and the scale asked for: a call that returns
  returns the store of images unchanged, and for scale levels the call returns.
\<close>

theorem includeSprite_blank:
  assumes "\<forall>i j. getPixel (imgs (imageS sprite)) i j = 0"
  shows "(includeSprite minimap sprite spriteScale imgs = None \<or>
          includeSprite minimap sprite spriteScale imgs = Some imgs) \<and>
         (scaleM minimap \<le> 30 \<and> 0 \<le> spriteScale \<longrightarrow>
          includeSprite minimap sprite spriteScale imgs = Some imgs)"
proof -
  have same: "includeSprite minimap sprite spriteScale imgs = Some imgs"
    if "includeSprite minimap sprite spriteScale imgs = Some imgs'" for imgs'
  proof -
    have "imgs' = imgs"
      using that assms unfolding includeSprite_call by (rule renderScaledImage_blank)
    then show ?thesis using that by simp
  qed
  have part: "includeSprite minimap sprite spriteScale imgs = None \<or>
          includeSprite minimap sprite spriteScale imgs = Some imgs"
    using same by (cases "includeSprite minimap sprite spriteScale imgs") simp_all
  have total: "includeSprite minimap sprite spriteScale imgs = Some imgs"
    if "scaleM minimap \<le> 30 \<and> 0 \<le> spriteScale"
  proof -
    have "scaleM minimap - spriteScale \<le> 30" using that by simp
    then have "\<exists>imgs'. includeSprite minimap sprite spriteScale imgs = Some imgs'"
      using includeSprite_returns [of minimap spriteScale sprite imgs] by blast
    then show ?thesis using same by blast
  qed
  show ?thesis using part total by blast
qed

theorem includeSprite_blank_witness:
  "(\<forall>i j. getPixel (images0 (imageS blankSprite)) i j = 0) \<and>
   scaleM minimap0 \<le> 30 \<and> (0::int) \<le> Double \<and>
   includeSprite minimap0 blankSprite Double images0 = Some images0"
proof -
  have z: "\<forall>i j. getPixel (images0 (imageS blankSprite)) i j = 0"
    by (simp add: blankSprite_def images0_def create_def getPixel_def)
  have h: "scaleM minimap0 \<le> 30 \<and> (0::int) \<le> Double"
    by (simp add: minimap0_def Eighth_def Double_def)
  have "includeSprite minimap0 blankSprite Double images0 = Some images0"
    using z h
      includeSprite_blank [where imgs = images0 and sprite = blankSprite and minimap = minimap0
        and spriteScale = Double]
    by blast
  then show ?thesis using z h by simp
qed

section \<open>The tracked list\<close>

text \<open>
  C9. \<open>removeSpriteFromUpdateList\<close> removes the entries whose sprite is the reference
  given, and only them: an entry is in the list afterwards exactly when it was in it before
  and its reference is another one; every other entry is in it as often as before and in
  the order of before; the rest of the state is untouched; and when no entry has the
  reference, the state is the same afterwards. References are compared, not sprites: in the
  witness the sprites at addresses \<open>0\<close> and \<open>2\<close> are equal, the entries of \<open>0\<close> go
  and the entry of \<open>2\<close> stays.
\<close>

theorem removeSpriteFromUpdateList_exact:
  "(\<forall>u. u \<in> set (spritesToUpdate (removeSpriteFromUpdateList st s)) \<longleftrightarrow>
         u \<in> set (spritesToUpdate st) \<and> spriteU u \<noteq> s) \<and>
   (\<forall>u. spriteU u \<noteq> s \<longrightarrow>
         count_list (spritesToUpdate (removeSpriteFromUpdateList st s)) u =
         count_list (spritesToUpdate st) u) \<and>
   subseq (spritesToUpdate (removeSpriteFromUpdateList st s)) (spritesToUpdate st) \<and>
   ((\<forall>u \<in> set (spritesToUpdate st). spriteU u \<noteq> s) \<longrightarrow> removeSpriteFromUpdateList st s = st) \<and>
   minimapSprite (removeSpriteFromUpdateList st s) = minimapSprite st \<and>
   sprites (removeSpriteFromUpdateList st s) = sprites st \<and>
   heap (removeSpriteFromUpdateList st s) = heap st"
proof -
  have count: "count_list (filter P xs) u = (if P u then count_list xs u else 0)"
    for P and xs :: "IUpdateSprite list" and u
    by (induction xs) auto
  have noop: "removeSpriteFromUpdateList st s = st"
    if "\<forall>u \<in> set (spritesToUpdate st). spriteU u \<noteq> s"
  proof -
    have "filter (\<lambda>u. spriteU u \<noteq> s) (spritesToUpdate st) = spritesToUpdate st"
      using that by (simp add: filter_id_conv)
    then show ?thesis by (simp add: removeSpriteFromUpdateList_def)
  qed
  show ?thesis
    using noop by (simp add: removeSpriteFromUpdateList_def count)
qed

theorem removeSpriteFromUpdateList_exact_witness:
  "spritesToUpdate (removeSpriteFromUpdateList (state0\<lparr>spritesToUpdate := tracked0\<rparr>) (Ref 0)) =
     [\<lparr>spriteU = Ref 2, scaleU = Double\<rparr>] \<and>
   sprites state0 0 = sprites state0 2 \<and>
   removeSpriteFromUpdateList (state0\<lparr>spritesToUpdate := tracked0\<rparr>) (Ref 1) =
     state0\<lparr>spritesToUpdate := tracked0\<rparr>"
proof -
  let ?st = "state0\<lparr>spritesToUpdate := tracked0\<rparr>"
  have absent: "\<forall>u \<in> set (spritesToUpdate ?st). spriteU u \<noteq> Ref 1"
    by (simp add: tracked0_def)
  have "removeSpriteFromUpdateList ?st (Ref 1) = ?st"
    using removeSpriteFromUpdateList_exact [of ?st "Ref 1"] absent by blast
  moreover have "spritesToUpdate (removeSpriteFromUpdateList ?st (Ref 0)) =
     [\<lparr>spriteU = Ref 2, scaleU = Double\<rparr>]"
    by (simp add: removeSpriteFromUpdateList_def tracked0_def)
  moreover have "sprites state0 0 = sprites state0 2" by (simp add: state0_def)
  ultimately show ?thesis by simp
qed

section \<open>The refresh tick\<close>

lemma deref_remove [simp]: "deref (removeSpriteFromUpdateList st r) = deref st"
  by (simp add: deref_def removeSpriteFromUpdateList_def fun_eq_iff split: SpriteValue.splits)

lemma live_remove [simp]: "live (removeSpriteFromUpdateList st r) u = live st u"
  by (simp add: live_def)

lemma liveSprites_remove [simp]:
  "liveSprites (removeSpriteFromUpdateList st r) us = liveSprites st us"
  by (simp add: liveSprites_def cong: option.case_cong)

lemma deref_heap [simp]: "deref (st\<lparr>heap := hp\<rparr>) = deref st"
  by (simp add: deref_def fun_eq_iff split: SpriteValue.splits)

lemma live_heap [simp]: "live (st\<lparr>heap := hp\<rparr>) u = live st u"
  by (simp add: live_def)

lemma liveSprites_heap [simp]: "liveSprites (st\<lparr>heap := hp\<rparr>) us = liveSprites st us"
  by (simp add: liveSprites_def cong: option.case_cong)

lemma liveSprites_Cons:
  "liveSprites st (u # us) =
     (case deref st (spriteU u) of
        None \<Rightarrow> liveSprites st us
      | Some s \<Rightarrow> if live st u then (s, scaleU u) # liveSprites st us else liveSprites st us)"
  by (simp add: liveSprites_def map_filter_simps split: option.splits)

lemma updateSprites_overlay:
  "updateSprites snapshot minimap st =
     (case overlayEach (liveSprites st snapshot) minimap (images (heap st)) of
        None \<Rightarrow> None
      | Some imgs \<Rightarrow>
          Some (Inr (st\<lparr>spritesToUpdate :=
            filter (\<lambda>u. \<forall>v \<in> set snapshot. \<not> live st v \<longrightarrow> spriteU u \<noteq> spriteU v)
              (spritesToUpdate st),
            heap := (heap st)\<lparr>images := imgs\<rparr>\<rparr>)))"
proof (induction snapshot arbitrary: st)
  case Nil
  then show ?case by (simp add: liveSprites_def map_filter_simps)
next
  case (Cons u us)
  show ?case
  proof (cases "live st u")
    case True
    then obtain s where s: "deref st (spriteU u) = Some s"
      by (cases "deref st (spriteU u)") (auto simp: live_def isDestroyed_def)
    have nd: "\<not> isDestroyed (deref st (spriteU u))" using True by (simp add: live_def)
    have run: "updateSprites (u # us) minimap st =
        (case includeSprite minimap s (scaleU u) (images (heap st)) of
           None \<Rightarrow> None
         | Some imgs \<Rightarrow> updateSprites us minimap (st\<lparr>heap := (heap st)\<lparr>images := imgs\<rparr>\<rparr>))"
      using nd s by simp
    have ls: "liveSprites st (u # us) = (s, scaleU u) # liveSprites st us"
      using True s by (simp add: liveSprites_Cons)
    have keep: "filter (\<lambda>w. \<forall>v \<in> set (u # us). \<not> live st v \<longrightarrow> spriteU w \<noteq> spriteU v)
            (spritesToUpdate st) =
          filter (\<lambda>w. \<forall>v \<in> set us. \<not> live st v \<longrightarrow> spriteU w \<noteq> spriteU v)
            (spritesToUpdate st)"
      using True by simp
    show ?thesis
      unfolding run ls keep
      by (simp add: Cons.IH split: option.splits)
  next
    case False
    have "filter (\<lambda>w. \<forall>v \<in> set us. \<not> live st v \<longrightarrow> spriteU w \<noteq> spriteU v)
            (filter (\<lambda>w. spriteU w \<noteq> spriteU u) (spritesToUpdate st)) =
          filter (\<lambda>w. \<forall>v \<in> set (u # us). \<not> live st v \<longrightarrow> spriteU w \<noteq> spriteU v)
            (spritesToUpdate st)"
      using False by (auto intro: filter_cong)
    then have rm: "filter (\<lambda>w. \<forall>v \<in> set us. \<not> live st v \<longrightarrow> spriteU w \<noteq> spriteU v)
            (spritesToUpdate (removeSpriteFromUpdateList st (spriteU u))) =
          filter (\<lambda>w. \<forall>v \<in> set (u # us). \<not> live st v \<longrightarrow> spriteU w \<noteq> spriteU v)
            (spritesToUpdate st)"
      by (simp add: removeSpriteFromUpdateList_def)
    have d: "isDestroyed (deref st (spriteU u))" using False by (simp add: live_def)
    have run: "updateSprites (u # us) minimap st =
        updateSprites us minimap (removeSpriteFromUpdateList st (spriteU u))"
      using d by simp
    have ls: "liveSprites st (u # us) = liveSprites st us"
      using False by (simp add: liveSprites_Cons split: option.splits)
    have hp: "heap (removeSpriteFromUpdateList st (spriteU u)) = heap st"
      by (simp add: removeSpriteFromUpdateList_def)
    have upd: "removeSpriteFromUpdateList st (spriteU u)\<lparr>spritesToUpdate := xs, heap := h\<rparr> =
          st\<lparr>spritesToUpdate := xs, heap := h\<rparr>" for xs h
      by (simp add: removeSpriteFromUpdateList_def)
    show ?thesis
      unfolding run ls Cons.IH [of "removeSpriteFromUpdateList st (spriteU u)"]
      by (simp add: rm upd hp split: option.splits)
  qed
qed

lemma getMinimapObject_returns:
  assumes "0 \<le> s" "s \<le> 30"
  shows "\<exists>mm hp'. getMinimapObject tm s b c hp = Some (mm, hp') \<and> scaleM mm = s \<and>
           borderWidthM mm = b \<and> borderColorM mm = c"
proof (cases tm)
  case None
  then show ?thesis by (simp add: getMinimapObject_def image_create_def)
next
  case (Some tilemap)
  have pos: "0 < shl 1 s" using assms by (rule shl_one_pos)
  define numRows where "numRows = sar (areaHeight tilemap) (scaleT tilemap)"
  define numCols where "numCols = sar (areaWidth tilemap) (scaleT tilemap)"
  define tileWidth where "tileWidth = shl 1 (scaleT tilemap)"
  define hp1 where "hp1 = hp\<lparr>images := (images hp)(nextImage hp :=
                       create (sar (numCols * tileWidth) s + b * 2)
                              (sar (numRows * tileWidth) s + b * 2)),
                     nextImage := Suc (nextImage hp)\<rparr>"
  define imgs where "imgs = (if b > 0
      then (images hp1)(nextImage hp := fill (images hp1 (nextImage hp)) c)
      else images hp1)"
  obtain imgs' where
    "tileRows tilemap s b numRows numCols tileWidth 0 (nextImage hp) imgs = Some imgs'"
    using tileRows_returns [OF pos, of tilemap b numRows numCols tileWidth 0 "nextImage hp" imgs]
    by blast
  then have "getMinimapObject tm s b c hp =
        Some (\<lparr>imageM = nextImage hp, scaleM = s, borderWidthM = b, borderColorM = c\<rparr>,
              hp1\<lparr>images := imgs'\<rparr>)"
    unfolding Some getMinimapObject_def image_create_def Let_def numRows_def numCols_def
        tileWidth_def imgs_def hp1_def by simp
  then show ?thesis by simp
qed

lemma overlayEach_returns:
  "scaleM minimap \<le> 30 \<Longrightarrow> \<forall>(s, p) \<in> set xs. 0 \<le> p \<Longrightarrow>
   \<exists>imgs'. overlayEach xs minimap imgs = Some imgs'"
proof (induction xs arbitrary: imgs)
  case Nil
  then show ?case by simp
next
  case (Cons a xs)
  obtain s p where a: "a = (s, p)" by (cases a)
  then have p: "0 \<le> p" using Cons.prems(2) by simp
  then have "scaleM minimap - p \<le> 30" using Cons.prems(1) by simp
  then obtain imgs1 where m: "includeSprite minimap s p imgs = Some imgs1"
    using includeSprite_returns [of minimap p s imgs] by blast
  have "\<exists>imgs'. overlayEach xs minimap imgs1 = Some imgs'"
    using Cons.prems by (intro Cons.IH) simp_all
  then show ?case using a m by simp
qed

lemma liveSprites_scales:
  "\<forall>u \<in> set us. 0 \<le> scaleU u \<Longrightarrow> \<forall>(s, p) \<in> set (liveSprites st us). 0 \<le> p"
proof (induction us)
  case Nil
  then show ?case by (simp add: liveSprites_def map_filter_simps)
next
  case (Cons u us)
  then show ?case by (auto simp: liveSprites_Cons split: option.splits)
qed

lemma filter_destroyed_live:
  "filter (\<lambda>u. \<forall>v \<in> set us. \<not> live st v \<longrightarrow> spriteU u \<noteq> spriteU v) us = filter (live st) us"
proof (rule filter_cong [OF refl])
  fix u assume "u \<in> set us"
  then show "(\<forall>v \<in> set us. \<not> live st v \<longrightarrow> spriteU u \<noteq> spriteU v) = live st u"
    by (auto simp: live_def)
qed

text \<open>
  The callback puts the fresh minimap into \<^verbatim>\<open>minimapSprite.data\<close> before it walks the
  list. That changes neither which sprites are destroyed nor what \<open>includeSprite\<close> draws
  of them: it reads the position, the size and the image of a sprite.
\<close>

lemma includeSprite_data [simp]:
  "includeSprite minimap (s\<lparr>dataS := d\<rparr>) p imgs = includeSprite minimap s p imgs"
  by (simp add: includeSprite_def)

lemma live_data [simp]:
  "live (st\<lparr>sprites := (sprites st)(ms := (sprites st ms)\<lparr>dataS := d\<rparr>)\<rparr>) u = live st u"
  by (cases "spriteU u") (simp_all add: live_def deref_def isDestroyed_def)

lemma overlayEach_data [simp]:
  "overlayEach
     (liveSprites (st\<lparr>sprites := (sprites st)(ms := (sprites st ms)\<lparr>dataS := d\<rparr>)\<rparr>) us)
     minimap imgs =
   overlayEach (liveSprites st us) minimap imgs"
proof (induction us arbitrary: imgs)
  case Nil
  then show ?case by (simp add: liveSprites_def map_filter_simps)
next
  case (Cons u us)
  let ?st = "st\<lparr>sprites := (sprites st)(ms := (sprites st ms)\<lparr>dataS := d\<rparr>)\<rparr>"
  show ?case
  proof (cases "spriteU u")
    case (Ref r)
    show ?thesis
    proof (cases "live st u")
      case True
      then have l: "live ?st u" by simp
      have d1: "deref st (spriteU u) = Some (sprites st r)"
        and d2: "deref ?st (spriteU u) =
                   Some (if r = ms then (sprites st ms)\<lparr>dataS := d\<rparr> else sprites st r)"
        using Ref by (simp_all add: deref_def)
      show ?thesis
        unfolding liveSprites_Cons d1 d2 using True l
        by (simp add: Cons.IH split: option.splits)
    next
      case False
      then have l: "\<not> live ?st u" by simp
      show ?thesis
        unfolding liveSprites_Cons using False l
        by (simp add: Cons.IH split: option.splits)
    qed
  next
    case Undefined
    then show ?thesis
      unfolding liveSprites_Cons by (simp add: deref_def Cons.IH)
  next
    case Null
    then show ?thesis
      unfolding liveSprites_Cons by (simp add: deref_def Cons.IH)
  qed
qed

lemma refreshTick_unfold:
  assumes "minimapSprite st = Some ms" "dataS (sprites st ms) = Some oldMM"
  shows "refreshTick st =
     (case getMinimapObject (sceneTileMap st) (scaleM oldMM) (borderWidthM oldMM)
             (borderColorM oldMM) (heap st) of
        None \<Rightarrow> None
      | Some (newMM, hp) \<Rightarrow>
          (case overlayEach (liveSprites st (spritesToUpdate st)) newMM (images hp) of
             None \<Rightarrow> None
           | Some imgs \<Rightarrow>
               Some (Inr (st\<lparr>spritesToUpdate := filter (live st) (spritesToUpdate st),
                             heap := hp\<lparr>images := imgs\<rparr>,
                             sprites := (sprites st)(ms :=
                               (sprites st ms)\<lparr>dataS := Some newMM,
                                                imageS := imageM newMM\<rparr>)\<rparr>))))"
proof (cases "getMinimapObject (sceneTileMap st) (scaleM oldMM) (borderWidthM oldMM)
             (borderColorM oldMM) (heap st)")
  case None
  then show ?thesis using assms by (simp add: refreshTick_def)
next
  case (Some a)
  obtain newMM hp where a: "a = (newMM, hp)" by (cases a)
  let ?st0 = "st\<lparr>sprites := (sprites st)(ms := (sprites st ms)\<lparr>dataS := Some newMM\<rparr>)\<rparr>"
  let ?st1 = "st\<lparr>heap := hp,
                  sprites := (sprites st)(ms := (sprites st ms)\<lparr>dataS := Some newMM\<rparr>)\<rparr>"
  have st1: "?st1 = ?st0\<lparr>heap := hp\<rparr>" by simp
  have ov: "overlayEach (liveSprites ?st1 (spritesToUpdate st)) newMM (images hp) =
            overlayEach (liveSprites st (spritesToUpdate st)) newMM (images hp)"
    unfolding st1 liveSprites_heap by (rule overlayEach_data)
  have lv: "live ?st1 = live st"
    unfolding st1 by (simp add: fun_eq_iff)
  have tick: "refreshTick st =
      (case updateSprites (spritesToUpdate ?st1) newMM ?st1 of
         None \<Rightarrow> None
       | Some (Inl e) \<Rightarrow> Some (Inl e)
       | Some (Inr st2) \<Rightarrow>
           Some (Inr (st2\<lparr>sprites := (sprites st2)(ms :=
             (sprites st2 ms)\<lparr>imageS := imageM newMM\<rparr>)\<rparr>)))"
    using assms Some a by (simp add: refreshTick_def Let_def)
  have loop: "updateSprites (spritesToUpdate ?st1) newMM ?st1 =
      (case overlayEach (liveSprites st (spritesToUpdate st)) newMM (images hp) of
         None \<Rightarrow> None
       | Some imgs \<Rightarrow>
           Some (Inr (?st1\<lparr>spritesToUpdate := filter (live st) (spritesToUpdate st),
                           heap := hp\<lparr>images := imgs\<rparr>\<rparr>)))"
  proof -
    have f: "filter (\<lambda>u. \<forall>v \<in> set (spritesToUpdate ?st1). \<not> live ?st1 v \<longrightarrow>
                 spriteU u \<noteq> spriteU v) (spritesToUpdate ?st1) =
             filter (live st) (spritesToUpdate st)"
      unfolding filter_destroyed_live lv by simp
    have sn: "liveSprites ?st1 (spritesToUpdate ?st1) = liveSprites ?st1 (spritesToUpdate st)"
      by simp
    have hp: "images (heap ?st1) = images hp" "heap ?st1 = hp" by simp_all
    show ?thesis
      unfolding updateSprites_overlay f sn hp ov ..
  qed
  show ?thesis
    unfolding tick loop Some a
    by (simp split: option.splits)
qed

text \<open>
  C2. One run of the refresh callback, from a state with a minimap sprite that holds a
  minimap. The run walks a copy of the whole tracked list, so every entry is visited. When
  the run completes,
  \<^item> the tracked list is the list of before without the entries whose sprite is destroyed,
  \<^item> no entry of it has a destroyed sprite,
  \<^item> the image shown is the image of the fresh minimap, and the images are what they are
    after the sprites of the live entries were overlaid on it, in the order of the list,
    and nothing else: the image of a destroyed sprite is not in it.
  For scale levels the run completes.
\<close>

theorem refreshTick_prunes:
  assumes "minimapSprite st = Some ms" "dataS (sprites st ms) = Some oldMM"
  shows "(scaleLevel (scaleM oldMM) \<and> (\<forall>u \<in> set (spritesToUpdate st). 0 \<le> scaleU u)
            \<longrightarrow> (\<exists>st'. refreshTick st = Some (Inr st'))) \<and>
         (\<forall>st'. refreshTick st = Some (Inr st') \<longrightarrow>
            spritesToUpdate st' = filter (live st) (spritesToUpdate st) \<and>
            (\<forall>u \<in> set (spritesToUpdate st'). \<not> isDestroyed (deref st' (spriteU u))) \<and>
            (\<exists>newMM hp imgs.
               getMinimapObject (sceneTileMap st) (scaleM oldMM) (borderWidthM oldMM)
                 (borderColorM oldMM) (heap st) = Some (newMM, hp) \<and>
               overlayEach (liveSprites st (spritesToUpdate st)) newMM (images hp) = Some imgs \<and>
               images (heap st') = imgs \<and>
               imageS (sprites st' ms) = imageM newMM \<and>
               dataS (sprites st' ms) = Some newMM))"
proof (intro conjI impI allI)
  assume "scaleLevel (scaleM oldMM) \<and> (\<forall>u \<in> set (spritesToUpdate st). 0 \<le> scaleU u)"
  then have h: "0 \<le> scaleM oldMM \<and> scaleM oldMM \<le> 30 \<and>
      (\<forall>u \<in> set (spritesToUpdate st). 0 \<le> scaleU u)"
    by (simp add: scaleLevel_def)
  then obtain newMM hp where m: "getMinimapObject (sceneTileMap st) (scaleM oldMM)
      (borderWidthM oldMM) (borderColorM oldMM) (heap st) = Some (newMM, hp)"
    and sc: "scaleM newMM = scaleM oldMM"
    using getMinimapObject_returns
      [of "scaleM oldMM" "sceneTileMap st" "borderWidthM oldMM" "borderColorM oldMM" "heap st"]
    by blast
  have "\<exists>imgs. overlayEach (liveSprites st (spritesToUpdate st)) newMM (images hp) = Some imgs"
    using h sc by (intro overlayEach_returns liveSprites_scales) simp_all
  then show "\<exists>st'. refreshTick st = Some (Inr st')"
    unfolding refreshTick_unfold [OF assms] m by auto
next
  fix st' assume run: "refreshTick st = Some (Inr st')"
  then obtain newMM hp imgs where
    new: "getMinimapObject (sceneTileMap st) (scaleM oldMM) (borderWidthM oldMM)
                 (borderColorM oldMM) (heap st) = Some (newMM, hp)"
    and mm: "overlayEach (liveSprites st (spritesToUpdate st)) newMM (images hp) = Some imgs"
    and st': "st' = st\<lparr>spritesToUpdate := filter (live st) (spritesToUpdate st),
                       heap := hp\<lparr>images := imgs\<rparr>,
                       sprites := (sprites st)(ms :=
                         (sprites st ms)\<lparr>dataS := Some newMM, imageS := imageM newMM\<rparr>)\<rparr>"
    unfolding refreshTick_unfold [OF assms] by (auto split: option.splits)
  show "spritesToUpdate st' = filter (live st) (spritesToUpdate st)"
    by (simp add: st')
  have same: "isDestroyed (deref st' r) = isDestroyed (deref st r)" for r
    by (cases r) (simp_all add: st' deref_def isDestroyed_def)
  show "\<forall>u \<in> set (spritesToUpdate st'). \<not> isDestroyed (deref st' (spriteU u))"
    unfolding same by (simp add: st' live_def)
  show "\<exists>newMM hp imgs.
       getMinimapObject (sceneTileMap st) (scaleM oldMM) (borderWidthM oldMM)
         (borderColorM oldMM) (heap st) = Some (newMM, hp) \<and>
       overlayEach (liveSprites st (spritesToUpdate st)) newMM (images hp) = Some imgs \<and>
       images (heap st') = imgs \<and>
       imageS (sprites st' ms) = imageM newMM \<and>
       dataS (sprites st' ms) = Some newMM"
    using new mm by (simp add: st')
qed

theorem refreshTick_prunes_witness:
  "minimapSprite state1 = Some 3 \<and> dataS (sprites state1 3) = Some minimap0 \<and>
   isDestroyed (deref state1 (Ref 1)) \<and>
   (\<exists>st'. refreshTick state1 = Some (Inr st') \<and> spritesToUpdate st' = tracked0)"
proof -
  have h: "minimapSprite state1 = Some 3" "dataS (sprites state1 3) = Some minimap0"
    by (simp_all add: state1_def)
  have d: "isDestroyed (deref state1 (Ref 1))"
    by (simp add: state1_def state0_def deref_def isDestroyed_def Flag_Destroyed_def ToInt32_def)
  have l: "filter (live state1) (spritesToUpdate state1) = tracked0"
    by (simp add: state1_def state0_def tracked0_def live_def deref_def isDestroyed_def
        Flag_Destroyed_def ToInt32_def sprite0_def)
  have s: "scaleLevel (scaleM minimap0) \<and>
      (\<forall>u \<in> set (spritesToUpdate state1). 0 \<le> scaleU u)"
    by (simp add: scaleLevel_def minimap0_def Eighth_def state1_def tracked0_def Double_def
        Quadruple_def)
  note t = refreshTick_prunes [OF h]
  from t s obtain st' where st': "refreshTick state1 = Some (Inr st')" by blast
  with t have "spritesToUpdate st' = filter (live state1) (spritesToUpdate state1)" by blast
  then show ?thesis using h d l st' by simp
qed

lemma createMinimapSprite_Some:
  assumes "createMinimapSprite st s b c = Some (r, st1)"
  shows "minimapSprite st1 = Some r \<and> (\<exists>mm. dataS (sprites st1 r) = Some mm)"
  using assms
  by (auto simp: createMinimapSprite_def sprites_create_def Let_def split: option.splits)

text \<open>
  C10. The refresh callback reads \<^verbatim>\<open>minimapSprite.data\<close> first and unguarded. In a state
  without a minimap sprite, the one the module starts in, a tick faults, also after
  \<open>updateMiniMapEvery\<close>, which registers the callback whatever the state and leaves
  \<^verbatim>\<open>minimapSprite\<close> alone, as adding to and removing from the tracked list do. A tick
  that completes had a minimap sprite. \<open>createMinimapSprite\<close> is what sets it: for a scale
  level it returns, and in the state it returns the variable holds the new sprite, the
  sprite holds a minimap and a tick does not fault.
\<close>

theorem refreshTick_needs_display:
  "(minimapSprite st = None \<longrightarrow>
      refreshTick st = Some (Inl TypeError) \<and>
      refreshTick (updateMiniMapEvery st updateInterval) = Some (Inl TypeError)) \<and>
   refreshTick (updateMiniMapEvery (init tilemap store free hp0) updateInterval) =
     Some (Inl TypeError) \<and>
   (\<forall>st'. refreshTick st = Some (Inr st') \<longrightarrow> minimapSprite st \<noteq> None) \<and>
   minimapSprite (updateMiniMapEvery st updateInterval) = minimapSprite st \<and>
   minimapSprite (addSpriteToUpdateList st sprite spriteScale) = minimapSprite st \<and>
   minimapSprite (removeSpriteFromUpdateList st sprite) = minimapSprite st \<and>
   (scaleLevel s \<longrightarrow> (\<exists>r st1. createMinimapSprite st s b c = Some (r, st1))) \<and>
   (\<forall>r st1. createMinimapSprite st s b c = Some (r, st1) \<longrightarrow>
      minimapSprite st1 = Some r \<and> (\<exists>mm. dataS (sprites st1 r) = Some mm) \<and>
      refreshTick st1 \<noteq> Some (Inl TypeError))"
proof (intro conjI impI allI)
  assume "minimapSprite st = None"
  then show "refreshTick st = Some (Inl TypeError)"
    "refreshTick (updateMiniMapEvery st updateInterval) = Some (Inl TypeError)"
    by (simp_all add: refreshTick_def updateMiniMapEvery_def)
next
  show "refreshTick (updateMiniMapEvery (init tilemap store free hp0) updateInterval) =
      Some (Inl TypeError)"
    by (simp add: refreshTick_def updateMiniMapEvery_def init_def)
next
  fix st' assume "refreshTick st = Some (Inr st')"
  then show "minimapSprite st \<noteq> None"
    by (cases "minimapSprite st") (simp_all add: refreshTick_def)
next
  show "minimapSprite (updateMiniMapEvery st updateInterval) = minimapSprite st"
    "minimapSprite (addSpriteToUpdateList st sprite spriteScale) = minimapSprite st"
    "minimapSprite (removeSpriteFromUpdateList st sprite) = minimapSprite st"
    by (simp_all add: updateMiniMapEvery_def addSpriteToUpdateList_def
        removeSpriteFromUpdateList_def)
next
  assume "scaleLevel s"
  then have "0 \<le> s" "s \<le> 30" by (simp_all add: scaleLevel_def)
  then obtain mm hp' where "getMinimapObject (sceneTileMap st) s b c (heap st) = Some (mm, hp')"
    using getMinimapObject_returns [of s "sceneTileMap st" b c "heap st"] by blast
  then show "\<exists>r st1. createMinimapSprite st s b c = Some (r, st1)"
    by (simp add: createMinimapSprite_def sprites_create_def Let_def)
next
  fix r st1 assume run: "createMinimapSprite st s b c = Some (r, st1)"
  then have ms: "minimapSprite st1 = Some r" and "\<exists>mm. dataS (sprites st1 r) = Some mm"
    using createMinimapSprite_Some by blast+
  then obtain mm where mm: "dataS (sprites st1 r) = Some mm" by blast
  show "minimapSprite st1 = Some r" by (rule ms)
  show "\<exists>mm. dataS (sprites st1 r) = Some mm" using mm by blast
  show "refreshTick st1 \<noteq> Some (Inl TypeError)"
    unfolding refreshTick_unfold [OF ms mm] by (simp split: option.splits prod.splits)
qed

theorem refreshTick_needs_display_witness:
  "minimapSprite state0 = None \<and>
   refreshTick (updateMiniMapEvery state0 500) = Some (Inl TypeError) \<and>
   (\<exists>r st1. createMinimapSprite state0 Half 2 5 = Some (r, st1) \<and>
      refreshTick st1 \<noteq> Some (Inl TypeError))"
proof -
  have h: "minimapSprite state0 = None" by (simp add: state0_def)
  have s: "scaleLevel Half" by (simp add: scaleLevel_def Half_def)
  note t = refreshTick_needs_display [of state0 500 _ _ _ _ _ _ Half 2 5]
  from t h have "refreshTick (updateMiniMapEvery state0 500) = Some (Inl TypeError)" by blast
  moreover from t s obtain r st1 where c: "createMinimapSprite state0 Half 2 5 = Some (r, st1)"
    by blast
  moreover from t c have "refreshTick st1 \<noteq> Some (Inl TypeError)" by blast
  ultimately show ?thesis using h by blast
qed

section \<open>The border\<close>

lemma sampled_iff:
  "sampled source s k l \<longleftrightarrow> getPixel source (k * 2 ^ nat s) (l * 2 ^ nat s) \<noteq> 0"
  by (auto simp: sampled_def getPixel_def inRange_def zero_le_mult_iff)

lemma getPixel_stamp:
  "getPixel (renderScaled_spec source d x y s) a b =
     (if inRange d a b \<and> sampled source s (a - x) (b - y)
      then getPixel source ((a - x) * 2 ^ nat s) ((b - y) * 2 ^ nat s)
      else getPixel d a b)"
  by (simp add: getPixel_renderScaled_spec sampled_iff)

text \<open>
  The state of the minimap after the cells \<open>c0 \<le> c < numCols\<close> of row \<open>r\<close>. The tiles
  are other buffers than the minimap, so they are the same all along.
\<close>

lemma tileRow_pixels:
  "0 \<le> s \<Longrightarrow> s \<le> 30 \<Longrightarrow>
   \<forall>idx. getTileImage tilemap idx \<noteq> minimap \<and> hostImage (imgs (getTileImage tilemap idx)) \<Longrightarrow>
   tileWidth = shl 1 (scaleT tilemap) \<Longrightarrow>
   \<exists>imgs'. tileRow tilemap s b numCols tileWidth r c0 minimap imgs = Some imgs' \<and>
     (\<forall>q. q \<noteq> minimap \<longrightarrow> imgs' q = imgs q) \<and>
     width (imgs' minimap) = width (imgs minimap) \<and>
     height (imgs' minimap) = height (imgs minimap) \<and>
     (\<forall>px py. inRange (imgs minimap) px py \<longrightarrow>
        ((\<exists>c. c0 \<le> c \<and> c < numCols \<and> tileHit imgs tilemap s b c r px py) \<longrightarrow>
         (\<exists>c. c0 \<le> c \<and> c < numCols \<and> tileHit imgs tilemap s b c r px py \<and>
                  getPixel (imgs' minimap) px py = tilePixel imgs tilemap s b c r px py)) \<and>
        (\<not> (\<exists>c. c0 \<le> c \<and> c < numCols \<and> tileHit imgs tilemap s b c r px py) \<longrightarrow>
         getPixel (imgs' minimap) px py = getPixel (imgs minimap) px py))"
proof (induction tilemap s b numCols tileWidth r c0 minimap imgs rule: tileRow.induct)
  case (1 tilemap s b numCols tileWidth r c0 minimap imgs)
  note s = "1.prems"(1,2) and tiles = "1.prems"(3) and tw = "1.prems"(4)
  let ?m = "imgs minimap"
  show ?case
  proof (cases "c0 < numCols")
    case False
    then have "tileRow tilemap s b numCols tileWidth r c0 minimap imgs = Some imgs"
      by (subst tileRow.simps) simp
    moreover have "\<not> (\<exists>c. c0 \<le> c \<and> c < numCols \<and> tileHit imgs tilemap s b c r px py)"
      for px py
      using False by auto
    ultimately show ?thesis by (intro exI [of _ imgs]) blast
  next
    case True
    let ?ref = "getTileImage tilemap (getTileIndex tilemap c0 r)"
    let ?tile = "tileAt imgs tilemap c0 r"
    let ?nx = "sar (c0 * tileWidth) s + b" and ?ny = "sar (r * tileWidth) s + b"
    let ?m1 = "renderScaled_spec ?tile ?m ?nx ?ny s"
    define imgs1 where "imgs1 = imgs(minimap := ?m1)"
    have sep: "?ref \<noteq> minimap" and host: "hostImage (imgs ?ref)"
      using tiles by simp_all
    have m1: "renderScaledImage ?ref minimap ?nx ?ny s imgs = Some imgs1"
      unfolding imgs1_def tileAt_def
      using sep s host by (intro renderScaledImage_spec) (simp_all add: hostImage_def)
    have at1: "imgs1 minimap = ?m1" by (simp add: imgs1_def)
    have off1: "imgs1 q = imgs q" if "q \<noteq> minimap" for q
      using that by (simp add: imgs1_def)
    have tiles1: "\<forall>idx. getTileImage tilemap idx \<noteq> minimap \<and>
                        hostImage (imgs1 (getTileImage tilemap idx))"
      using tiles by (simp add: off1)
    have ta: "tileAt imgs1 tilemap c r' = tileAt imgs tilemap c r'" for c r'
      using tiles by (simp add: tileAt_def off1)
    have th: "tileHit imgs1 tilemap s b c r' px py = tileHit imgs tilemap s b c r' px py"
      for c r' px py
      by (simp add: tileHit_def ta)
    have tp: "tilePixel imgs1 tilemap s b c r' px py = tilePixel imgs tilemap s b c r' px py"
      for c r' px py
      by (simp add: tilePixel_def ta)
    have dims: "width ?m1 = width ?m" "height ?m1 = height ?m"
      by (simp_all add: renderScaled_spec_def)
    from "1.IH" [OF True m1 s tiles1 tw]
    obtain imgs' where
      m': "tileRow tilemap s b numCols tileWidth r (c0 + 1) minimap imgs1 = Some imgs'"
      and off': "\<forall>q. q \<noteq> minimap \<longrightarrow> imgs' q = imgs1 q"
      and dims': "width (imgs' minimap) = width (imgs1 minimap)"
        "height (imgs' minimap) = height (imgs1 minimap)"
      and hit': "\<And>px py. inRange (imgs1 minimap) px py \<Longrightarrow>
          \<exists>c. c0 + 1 \<le> c \<and> c < numCols \<and> tileHit imgs1 tilemap s b c r px py \<Longrightarrow>
          \<exists>c. c0 + 1 \<le> c \<and> c < numCols \<and> tileHit imgs1 tilemap s b c r px py \<and>
                  getPixel (imgs' minimap) px py = tilePixel imgs1 tilemap s b c r px py"
      and miss': "\<And>px py. inRange (imgs1 minimap) px py \<Longrightarrow>
          \<not> (\<exists>c. c0 + 1 \<le> c \<and> c < numCols \<and> tileHit imgs1 tilemap s b c r px py) \<Longrightarrow>
          getPixel (imgs' minimap) px py = getPixel (imgs1 minimap) px py"
      by blast
    note hit' = hit' [unfolded th tp at1] and miss' = miss' [unfolded th at1]
      and dims' = dims' [unfolded at1]
    have run: "tileRow tilemap s b numCols tileWidth r c0 minimap imgs = Some imgs'"
      using True m1 m' by (subst tileRow.simps) simp
    have off: "\<forall>q. q \<noteq> minimap \<longrightarrow> imgs' q = imgs q"
      using off' off1 by simp
    have first: "getPixel ?m1 px py =
        (if tileHit imgs tilemap s b c0 r px py then tilePixel imgs tilemap s b c0 r px py
         else getPixel ?m px py)" if "inRange ?m px py" for px py
      using that by (simp add: getPixel_stamp tileHit_def tilePixel_def tw Let_def)
    have range1: "inRange ?m1 px py" if "inRange ?m px py" for px py
      using that dims by (simp add: inRange_def)
    have hit: "\<exists>c. c0 \<le> c \<and> c < numCols \<and> tileHit imgs tilemap s b c r px py \<and>
                  getPixel (imgs' minimap) px py = tilePixel imgs tilemap s b c r px py"
      if range: "inRange ?m px py"
        and some: "\<exists>c. c0 \<le> c \<and> c < numCols \<and> tileHit imgs tilemap s b c r px py" for px py
    proof (cases "\<exists>c. c0 + 1 \<le> c \<and> c < numCols \<and> tileHit imgs tilemap s b c r px py")
      case True
      from hit' [OF range1 [OF range] True] obtain c where "c0 + 1 \<le> c" "c < numCols"
        "tileHit imgs tilemap s b c r px py"
        "getPixel (imgs' minimap) px py = tilePixel imgs tilemap s b c r px py"
        by blast
      then show ?thesis by (intro exI [of _ c]) simp
    next
      case False
      from some obtain c where c: "c0 \<le> c" "c < numCols" "tileHit imgs tilemap s b c r px py"
        by blast
      then have "c = c0 \<or> c0 + 1 \<le> c" by linarith
      then have "c = c0" using c False by blast
      then have here: "tileHit imgs tilemap s b c0 r px py" using c by simp
      have "getPixel (imgs' minimap) px py = getPixel ?m1 px py"
        using miss' [OF range1 [OF range] False] .
      then have "getPixel (imgs' minimap) px py = tilePixel imgs tilemap s b c0 r px py"
        using first [OF range] here by simp
      then show ?thesis using True here by (intro exI [of _ c0]) simp
    qed
    have miss: "getPixel (imgs' minimap) px py = getPixel ?m px py"
      if range: "inRange ?m px py"
        and none: "\<not> (\<exists>c. c0 \<le> c \<and> c < numCols \<and> tileHit imgs tilemap s b c r px py)"
      for px py
    proof -
      have "\<not> (\<exists>c. c0 + 1 \<le> c \<and> c < numCols \<and> tileHit imgs tilemap s b c r px py)"
        using none by force
      then have "getPixel (imgs' minimap) px py = getPixel ?m1 px py"
        using miss' [OF range1 [OF range]] by blast
      moreover have "\<not> tileHit imgs tilemap s b c0 r px py" using none True by force
      ultimately show ?thesis using first [OF range] by simp
    qed
    have size: "width (imgs' minimap) = width ?m" "height (imgs' minimap) = height ?m"
      using dims dims' by simp_all
    show ?thesis
    proof (intro exI [of _ imgs'] conjI allI impI)
      fix px py
      assume "inRange ?m px py"
        "\<exists>c. c0 \<le> c \<and> c < numCols \<and> tileHit imgs tilemap s b c r px py"
      then show "\<exists>c. c0 \<le> c \<and> c < numCols \<and> tileHit imgs tilemap s b c r px py \<and>
                  getPixel (imgs' minimap) px py = tilePixel imgs tilemap s b c r px py"
        by (rule hit)
    next
      fix px py
      assume "inRange ?m px py"
        "\<not> (\<exists>c. c0 \<le> c \<and> c < numCols \<and> tileHit imgs tilemap s b c r px py)"
      then show "getPixel (imgs' minimap) px py = getPixel ?m px py" by (rule miss)
    next
      fix q assume "q \<noteq> minimap"
      then show "imgs' q = imgs q" using off by simp
    qed (rule run size)+
  qed
qed

text \<open>The state of the minimap after the rows \<open>r0 \<le> r < numRows\<close>.\<close>

lemma tileRows_pixels:
  "0 \<le> s \<Longrightarrow> s \<le> 30 \<Longrightarrow>
   \<forall>idx. getTileImage tilemap idx \<noteq> minimap \<and> hostImage (imgs (getTileImage tilemap idx)) \<Longrightarrow>
   tileWidth = shl 1 (scaleT tilemap) \<Longrightarrow>
   \<exists>imgs'. tileRows tilemap s b numRows numCols tileWidth r0 minimap imgs = Some imgs' \<and>
     (\<forall>q. q \<noteq> minimap \<longrightarrow> imgs' q = imgs q) \<and>
     width (imgs' minimap) = width (imgs minimap) \<and>
     height (imgs' minimap) = height (imgs minimap) \<and>
     (\<forall>px py. inRange (imgs minimap) px py \<longrightarrow>
        ((\<exists>r c. r0 \<le> r \<and> r < numRows \<and> 0 \<le> c \<and> c < numCols \<and>
                tileHit imgs tilemap s b c r px py) \<longrightarrow>
         (\<exists>r c. r0 \<le> r \<and> r < numRows \<and> 0 \<le> c \<and> c < numCols \<and>
                tileHit imgs tilemap s b c r px py \<and>
                getPixel (imgs' minimap) px py = tilePixel imgs tilemap s b c r px py)) \<and>
        (\<not> (\<exists>r c. r0 \<le> r \<and> r < numRows \<and> 0 \<le> c \<and> c < numCols \<and>
                tileHit imgs tilemap s b c r px py) \<longrightarrow>
         getPixel (imgs' minimap) px py = getPixel (imgs minimap) px py))"
proof (induction tilemap s b numRows numCols tileWidth r0 minimap imgs rule: tileRows.induct)
  case (1 tilemap s b numRows numCols tileWidth r0 minimap imgs)
  note s = "1.prems"(1,2) and tiles = "1.prems"(3) and tw = "1.prems"(4)
  let ?m = "imgs minimap"
  show ?case
  proof (cases "r0 < numRows")
    case False
    then have "tileRows tilemap s b numRows numCols tileWidth r0 minimap imgs = Some imgs"
      by (subst tileRows.simps) simp
    moreover have "\<not> (\<exists>r c. r0 \<le> r \<and> r < numRows \<and> 0 \<le> c \<and> c < numCols \<and>
                tileHit imgs tilemap s b c r px py)" for px py
      using False by auto
    ultimately show ?thesis by (intro exI [of _ imgs]) blast
  next
    case True
    from tileRow_pixels [OF s tiles tw, of b numCols r0 0]
    obtain imgs1 where
      m1: "tileRow tilemap s b numCols tileWidth r0 0 minimap imgs = Some imgs1"
      and off1: "\<forall>q. q \<noteq> minimap \<longrightarrow> imgs1 q = imgs q"
      and dims: "width (imgs1 minimap) = width ?m" "height (imgs1 minimap) = height ?m"
      and hit1: "\<And>px py. inRange ?m px py \<Longrightarrow>
          \<exists>c. 0 \<le> c \<and> c < numCols \<and> tileHit imgs tilemap s b c r0 px py \<Longrightarrow>
          \<exists>c. 0 \<le> c \<and> c < numCols \<and> tileHit imgs tilemap s b c r0 px py \<and>
                  getPixel (imgs1 minimap) px py = tilePixel imgs tilemap s b c r0 px py"
      and miss1: "\<And>px py. inRange ?m px py \<Longrightarrow>
          \<not> (\<exists>c. 0 \<le> c \<and> c < numCols \<and> tileHit imgs tilemap s b c r0 px py) \<Longrightarrow>
          getPixel (imgs1 minimap) px py = getPixel ?m px py"
      by blast
    have tiles1: "\<forall>idx. getTileImage tilemap idx \<noteq> minimap \<and>
                        hostImage (imgs1 (getTileImage tilemap idx))"
      using tiles off1 by simp
    have ta: "tileAt imgs1 tilemap c r' = tileAt imgs tilemap c r'" for c r'
      using tiles off1 by (simp add: tileAt_def)
    have th: "tileHit imgs1 tilemap s b c r' px py = tileHit imgs tilemap s b c r' px py"
      for c r' px py
      by (simp add: tileHit_def ta)
    have tp: "tilePixel imgs1 tilemap s b c r' px py = tilePixel imgs tilemap s b c r' px py"
      for c r' px py
      by (simp add: tilePixel_def ta)
    from "1.IH" [OF True m1 s tiles1 tw]
    obtain imgs' where
      m': "tileRows tilemap s b numRows numCols tileWidth (r0 + 1) minimap imgs1 = Some imgs'"
      and off': "\<forall>q. q \<noteq> minimap \<longrightarrow> imgs' q = imgs1 q"
      and dims': "width (imgs' minimap) = width (imgs1 minimap)"
        "height (imgs' minimap) = height (imgs1 minimap)"
      and hit': "\<And>px py. inRange (imgs1 minimap) px py \<Longrightarrow>
          \<exists>r c. r0 + 1 \<le> r \<and> r < numRows \<and> 0 \<le> c \<and> c < numCols \<and>
                tileHit imgs1 tilemap s b c r px py \<Longrightarrow>
          \<exists>r c. r0 + 1 \<le> r \<and> r < numRows \<and> 0 \<le> c \<and> c < numCols \<and>
                tileHit imgs1 tilemap s b c r px py \<and>
                getPixel (imgs' minimap) px py = tilePixel imgs1 tilemap s b c r px py"
      and miss': "\<And>px py. inRange (imgs1 minimap) px py \<Longrightarrow>
          \<not> (\<exists>r c. r0 + 1 \<le> r \<and> r < numRows \<and> 0 \<le> c \<and> c < numCols \<and>
                tileHit imgs1 tilemap s b c r px py) \<Longrightarrow>
          getPixel (imgs' minimap) px py = getPixel (imgs1 minimap) px py"
      by blast
    note hit' = hit' [unfolded th tp] and miss' = miss' [unfolded th]
    have run: "tileRows tilemap s b numRows numCols tileWidth r0 minimap imgs = Some imgs'"
      using True m1 m' by (subst tileRows.simps) simp
    have off: "\<forall>q. q \<noteq> minimap \<longrightarrow> imgs' q = imgs q"
      using off' off1 by simp
    have size: "width (imgs' minimap) = width ?m" "height (imgs' minimap) = height ?m"
      using dims dims' by simp_all
    have range1: "inRange (imgs1 minimap) px py" if "inRange ?m px py" for px py
      using that dims by (simp add: inRange_def)
    have hit: "\<exists>r c. r0 \<le> r \<and> r < numRows \<and> 0 \<le> c \<and> c < numCols \<and>
                tileHit imgs tilemap s b c r px py \<and>
                getPixel (imgs' minimap) px py = tilePixel imgs tilemap s b c r px py"
      if range: "inRange ?m px py"
        and some: "\<exists>r c. r0 \<le> r \<and> r < numRows \<and> 0 \<le> c \<and> c < numCols \<and>
                tileHit imgs tilemap s b c r px py" for px py
    proof (cases "\<exists>r c. r0 + 1 \<le> r \<and> r < numRows \<and> 0 \<le> c \<and> c < numCols \<and>
                tileHit imgs tilemap s b c r px py")
      case True
      from hit' [OF range1 [OF range] True] obtain r c where "r0 + 1 \<le> r" "r < numRows"
        "0 \<le> c" "c < numCols" "tileHit imgs tilemap s b c r px py"
        "getPixel (imgs' minimap) px py = tilePixel imgs tilemap s b c r px py"
        by blast
      then show ?thesis by (intro exI [of _ r] exI [of _ c]) simp
    next
      case False
      from some obtain r c where rc: "r0 \<le> r" "r < numRows" "0 \<le> c" "c < numCols"
        "tileHit imgs tilemap s b c r px py"
        by blast
      then have "r = r0 \<or> r0 + 1 \<le> r" by linarith
      then have "r = r0" using rc False by blast
      then have "\<exists>c. 0 \<le> c \<and> c < numCols \<and> tileHit imgs tilemap s b c r0 px py"
        using rc by blast
      from hit1 [OF range this] obtain c' where c': "0 \<le> c'" "c' < numCols"
        "tileHit imgs tilemap s b c' r0 px py"
        "getPixel (imgs1 minimap) px py = tilePixel imgs tilemap s b c' r0 px py"
        by blast
      have "getPixel (imgs' minimap) px py = getPixel (imgs1 minimap) px py"
        using miss' [OF range1 [OF range] False] .
      then show ?thesis using c' True by (intro exI [of _ r0] exI [of _ c']) simp
    qed
    have miss: "getPixel (imgs' minimap) px py = getPixel ?m px py"
      if range: "inRange ?m px py"
        and none: "\<not> (\<exists>r c. r0 \<le> r \<and> r < numRows \<and> 0 \<le> c \<and> c < numCols \<and>
                tileHit imgs tilemap s b c r px py)" for px py
    proof -
      have "\<not> (\<exists>r c. r0 + 1 \<le> r \<and> r < numRows \<and> 0 \<le> c \<and> c < numCols \<and>
                tileHit imgs tilemap s b c r px py)"
        using none by force
      then have "getPixel (imgs' minimap) px py = getPixel (imgs1 minimap) px py"
        using miss' [OF range1 [OF range]] by blast
      moreover have "\<not> (\<exists>c. 0 \<le> c \<and> c < numCols \<and> tileHit imgs tilemap s b c r0 px py)"
        using none True by force
      ultimately show ?thesis using miss1 [OF range] by simp
    qed
    show ?thesis
    proof (intro exI [of _ imgs'] conjI allI impI)
      fix px py
      assume "inRange ?m px py" "\<exists>r c. r0 \<le> r \<and> r < numRows \<and> 0 \<le> c \<and> c < numCols \<and>
                tileHit imgs tilemap s b c r px py"
      then show "\<exists>r c. r0 \<le> r \<and> r < numRows \<and> 0 \<le> c \<and> c < numCols \<and>
                tileHit imgs tilemap s b c r px py \<and>
                getPixel (imgs' minimap) px py = tilePixel imgs tilemap s b c r px py"
        by (rule hit)
    next
      fix px py
      assume "inRange ?m px py" "\<not> (\<exists>r c. r0 \<le> r \<and> r < numRows \<and> 0 \<le> c \<and> c < numCols \<and>
                tileHit imgs tilemap s b c r px py)"
      then show "getPixel (imgs' minimap) px py = getPixel ?m px py" by (rule miss)
    next
      fix q assume "q \<noteq> minimap"
      then show "imgs' q = imgs q" using off by simp
    qed (rule run size)+
  qed
qed

lemma drawnOver_iff:
  "drawnOver imgs tilemap s b px py \<longleftrightarrow>
     (\<exists>r c. 0 \<le> r \<and> r < sar (areaHeight tilemap) (scaleT tilemap) \<and>
            0 \<le> c \<and> c < sar (areaWidth tilemap) (scaleT tilemap) \<and>
            tileHit imgs tilemap s b c r px py)"
proof -
  have "(\<exists>r \<in> {0..n - 1}. \<exists>c \<in> {0..k - 1}. P c r) \<longleftrightarrow>
        (\<exists>r c. 0 \<le> r \<and> r < n \<and> 0 \<le> c \<and> c < k \<and> P c r)"
    for n k :: int and P
  proof
    assume "\<exists>r \<in> {0..n - 1}. \<exists>c \<in> {0..k - 1}. P c r"
    then obtain r c where "r \<in> {0..n - 1}" "c \<in> {0..k - 1}" "P c r" by blast
    then have "0 \<le> r \<and> r < n \<and> 0 \<le> c \<and> c < k \<and> P c r" by simp
    then show "\<exists>r c. 0 \<le> r \<and> r < n \<and> 0 \<le> c \<and> c < k \<and> P c r" by blast
  next
    assume "\<exists>r c. 0 \<le> r \<and> r < n \<and> 0 \<le> c \<and> c < k \<and> P c r"
    then obtain r c where "0 \<le> r" "r < n" "0 \<le> c" "c < k" "P c r" by blast
    then have "r \<in> {0..n - 1}" "c \<in> {0..k - 1}" "P c r" by simp_all
    then show "\<exists>r \<in> {0..n - 1}. \<exists>c \<in> {0..k - 1}. P c r" by blast
  qed
  then show ?thesis by (simp add: drawnOver_def Let_def)
qed

text \<open>
  C4. With a tile grid whose tile images are buffers of the host that are there when the
  call is made, a scale level and a border width \<open>b > 0\<close>, \<open>getMinimapObject\<close> returns
  an image, a new buffer, that was filled with the border color and then stamped with the
  tile of each cell \<open>(c, r)\<close> at offset
  \<open>((c * tileWidth >> scale) + b, (r * tileWidth >> scale) + b)\<close>. So a pixel of the outer
  margin of width \<open>b\<close> that no stamp draws on has the border color; so has every other
  pixel of the image that no stamp draws on; and a pixel that a stamp draws on has what the
  stamp of some cell draws there. The buffers that were there are as they were.
\<close>

theorem getMinimapObject_border:
  assumes "scaleLevel s" "0 < b" "\<forall>idx. hostBuffer hp (getTileImage tilemap idx)"
  shows "\<exists>mm hp'. getMinimapObject (Some tilemap) s b c hp = Some (mm, hp') \<and>
     imageM mm = nextImage hp \<and>
     (\<forall>q. q < nextImage hp \<longrightarrow> images hp' q = images hp q) \<and>
     width (images hp' (imageM mm)) =
       sar (sar (areaWidth tilemap) (scaleT tilemap) * shl 1 (scaleT tilemap)) s + b * 2 \<and>
     height (images hp' (imageM mm)) =
       sar (sar (areaHeight tilemap) (scaleT tilemap) * shl 1 (scaleT tilemap)) s + b * 2 \<and>
     (\<forall>px py. outerMargin (images hp' (imageM mm)) b px py \<and>
        \<not> drawnOver (images hp) tilemap s b px py \<longrightarrow>
        getPixel (images hp' (imageM mm)) px py = c) \<and>
     (\<forall>px py. inRange (images hp' (imageM mm)) px py \<and>
        \<not> drawnOver (images hp) tilemap s b px py \<longrightarrow>
        getPixel (images hp' (imageM mm)) px py = c) \<and>
     (\<forall>px py. inRange (images hp' (imageM mm)) px py \<and>
        drawnOver (images hp) tilemap s b px py \<longrightarrow>
        (\<exists>r c'. 0 \<le> r \<and> r < sar (areaHeight tilemap) (scaleT tilemap) \<and>
            0 \<le> c' \<and> c' < sar (areaWidth tilemap) (scaleT tilemap) \<and>
            tileHit (images hp) tilemap s b c' r px py \<and>
            getPixel (images hp' (imageM mm)) px py =
              tilePixel (images hp) tilemap s b c' r px py))"
proof -
  define numRows where "numRows = sar (areaHeight tilemap) (scaleT tilemap)"
  define numCols where "numCols = sar (areaWidth tilemap) (scaleT tilemap)"
  define tileWidth where "tileWidth = shl 1 (scaleT tilemap)"
  define minimap where "minimap = nextImage hp"
  define hp1 where "hp1 = hp\<lparr>images := (images hp)(minimap :=
                       create (sar (numCols * tileWidth) s + b * 2)
                              (sar (numRows * tileWidth) s + b * 2)),
                     nextImage := Suc minimap\<rparr>"
  define imgs where "imgs = (images hp1)(minimap := fill (images hp1 minimap) c)"
  let ?filled = "imgs minimap"
  have size: "width ?filled = sar (numCols * tileWidth) s + b * 2"
    "height ?filled = sar (numRows * tileWidth) s + b * 2"
    by (simp_all add: imgs_def hp1_def create_def fill_def)
  have filled: "getPixel ?filled px py = c" if "inRange ?filled px py" for px py
    using that by (simp add: getPixel_def imgs_def fill_def)
  have old: "imgs q = images hp q" if "q < nextImage hp" for q
    using that by (simp add: imgs_def hp1_def minimap_def)
  have tiles: "\<forall>idx. getTileImage tilemap idx \<noteq> minimap \<and>
                      hostImage (imgs (getTileImage tilemap idx))"
  proof
    fix idx
    have "getTileImage tilemap idx < nextImage hp"
      "hostImage (images hp (getTileImage tilemap idx))"
      using assms(3) by (simp_all add: hostBuffer_def)
    then show "getTileImage tilemap idx \<noteq> minimap \<and>
               hostImage (imgs (getTileImage tilemap idx))"
      by (simp add: old minimap_def)
  qed
  have ta: "tileAt imgs tilemap c' r = tileAt (images hp) tilemap c' r" for c' r
    using assms(3) by (simp add: tileAt_def old hostBuffer_def)
  have th: "tileHit imgs tilemap s b c' r px py = tileHit (images hp) tilemap s b c' r px py"
    for c' r px py
    by (simp add: tileHit_def ta)
  have tp: "tilePixel imgs tilemap s b c' r px py = tilePixel (images hp) tilemap s b c' r px py"
    for c' r px py
    by (simp add: tilePixel_def ta)
  have s: "0 \<le> s" "s \<le> 30"
    using assms(1) by (simp_all add: scaleLevel_def)
  from tileRows_pixels [OF s tiles tileWidth_def, of b numRows numCols 0]
  obtain imgs' where
    m: "tileRows tilemap s b numRows numCols tileWidth 0 minimap imgs = Some imgs'"
    and off: "\<forall>q. q \<noteq> minimap \<longrightarrow> imgs' q = imgs q"
    and dims: "width (imgs' minimap) = width ?filled" "height (imgs' minimap) = height ?filled"
    and hit: "\<And>px py. inRange ?filled px py \<Longrightarrow>
          \<exists>r c. 0 \<le> r \<and> r < numRows \<and> 0 \<le> c \<and> c < numCols \<and>
                tileHit imgs tilemap s b c r px py \<Longrightarrow>
          \<exists>r c. 0 \<le> r \<and> r < numRows \<and> 0 \<le> c \<and> c < numCols \<and>
                tileHit imgs tilemap s b c r px py \<and>
                getPixel (imgs' minimap) px py = tilePixel imgs tilemap s b c r px py"
    and miss: "\<And>px py. inRange ?filled px py \<Longrightarrow>
          \<not> (\<exists>r c. 0 \<le> r \<and> r < numRows \<and> 0 \<le> c \<and> c < numCols \<and>
                tileHit imgs tilemap s b c r px py) \<Longrightarrow>
          getPixel (imgs' minimap) px py = getPixel ?filled px py"
    by blast
  note hit = hit [unfolded th tp] and miss = miss [unfolded th]
  let ?mm = "\<lparr>imageM = minimap, scaleM = s, borderWidthM = b, borderColorM = c\<rparr>"
  let ?hp' = "hp1\<lparr>images := imgs'\<rparr>"
  let ?m = "imgs' minimap"
  have run: "getMinimapObject (Some tilemap) s b c hp = Some (?mm, ?hp')"
    using m assms(2)
    unfolding getMinimapObject_def image_create_def Let_def numRows_def numCols_def
      tileWidth_def imgs_def hp1_def minimap_def
    by simp
  have at: "images ?hp' (imageM ?mm) = ?m" by simp
  have frame: "images ?hp' q = images hp q" if "q < nextImage hp" for q
    using that off old by (simp add: minimap_def)
  have range: "inRange ?filled px py" if "inRange ?m px py" for px py
    using that dims by (simp add: inRange_def)
  have border: "getPixel ?m px py = c"
    if "inRange ?m px py \<and> \<not> drawnOver (images hp) tilemap s b px py" for px py
  proof -
    have "\<not> (\<exists>r c. 0 \<le> r \<and> r < numRows \<and> 0 \<le> c \<and> c < numCols \<and>
                tileHit (images hp) tilemap s b c r px py)"
      using that by (simp add: drawnOver_iff numRows_def numCols_def)
    moreover have r0: "inRange ?filled px py" using that range by blast
    ultimately have "getPixel ?m px py = getPixel ?filled px py" using miss by blast
    then show ?thesis using filled [OF r0] by simp
  qed
  have tile: "\<exists>r c'. 0 \<le> r \<and> r < numRows \<and> 0 \<le> c' \<and> c' < numCols \<and>
            tileHit (images hp) tilemap s b c' r px py \<and>
            getPixel ?m px py = tilePixel (images hp) tilemap s b c' r px py"
    if "inRange ?m px py \<and> drawnOver (images hp) tilemap s b px py" for px py
  proof -
    have "\<exists>r c. 0 \<le> r \<and> r < numRows \<and> 0 \<le> c \<and> c < numCols \<and>
                tileHit (images hp) tilemap s b c r px py"
      using that by (simp add: drawnOver_iff numRows_def numCols_def)
    moreover have "inRange ?filled px py" using that range by blast
    ultimately show ?thesis using hit by blast
  qed
  show ?thesis
  proof (intro exI [of _ ?mm] exI [of _ ?hp'] conjI allI impI)
    show "getMinimapObject (Some tilemap) s b c hp = Some (?mm, ?hp')" by (rule run)
    show "imageM ?mm = nextImage hp" by (simp add: minimap_def)
    show "width (images ?hp' (imageM ?mm)) =
        sar (sar (areaWidth tilemap) (scaleT tilemap) * shl 1 (scaleT tilemap)) s + b * 2"
      unfolding at using dims size by (simp add: numCols_def tileWidth_def)
    show "height (images ?hp' (imageM ?mm)) =
        sar (sar (areaHeight tilemap) (scaleT tilemap) * shl 1 (scaleT tilemap)) s + b * 2"
      unfolding at using dims size by (simp add: numRows_def tileWidth_def)
  next
    fix q assume "q < nextImage hp"
    then show "images ?hp' q = images hp q" by (rule frame)
  next
    fix px py
    assume "outerMargin (images ?hp' (imageM ?mm)) b px py \<and>
        \<not> drawnOver (images hp) tilemap s b px py"
    then show "getPixel (images ?hp' (imageM ?mm)) px py = c"
      unfolding at using border [of px py] by (simp add: outerMargin_def)
  next
    fix px py
    assume "inRange (images ?hp' (imageM ?mm)) px py \<and>
        \<not> drawnOver (images hp) tilemap s b px py"
    then show "getPixel (images ?hp' (imageM ?mm)) px py = c"
      unfolding at using border [of px py] by simp
  next
    fix px py
    assume "inRange (images ?hp' (imageM ?mm)) px py \<and>
        drawnOver (images hp) tilemap s b px py"
    then show "\<exists>r c'. 0 \<le> r \<and> r < sar (areaHeight tilemap) (scaleT tilemap) \<and>
            0 \<le> c' \<and> c' < sar (areaWidth tilemap) (scaleT tilemap) \<and>
            tileHit (images hp) tilemap s b c' r px py \<and>
            getPixel (images ?hp' (imageM ?mm)) px py =
              tilePixel (images hp) tilemap s b c' r px py"
      unfolding at using tile [of px py] by (simp add: numRows_def numCols_def)
  qed
qed

theorem getMinimapObject_border_witness:
  "scaleLevel Half \<and> (0::int) < 2 \<and> (\<forall>idx. hostBuffer heap0 (getTileImage grid44 idx)) \<and>
   (\<exists>mm hp'. getMinimapObject (Some grid44) Half 2 5 heap0 = Some (mm, hp') \<and>
      outerMargin (images hp' (imageM mm)) 2 19 1 \<and>
      \<not> drawnOver (images heap0) grid44 Half 2 19 1 \<and>
      getPixel (images hp' (imageM mm)) 19 1 = 5)"
proof -
  have tiles: "\<forall>idx. hostBuffer heap0 (getTileImage grid44 idx)"
    by (auto simp: grid44_def hostBuffer_def heap0_def images0_def src0_def tile8_def
        hostImage_def create_def)
  have h: "scaleLevel Half" "(0::int) < 2" "\<forall>idx. hostBuffer heap0 (getTileImage grid44 idx)"
    using tiles by (simp_all add: scaleLevel_def Half_def)
  have w: "sar (sar (areaWidth grid44) (scaleT grid44) * shl 1 (scaleT grid44)) Half + 2 * 2 = 20"
    "sar (sar (areaHeight grid44) (scaleT grid44) * shl 1 (scaleT grid44)) Half + 2 * 2 = 20"
    by code_simp+
  have n: "\<not> drawnOver (images heap0) grid44 Half 2 19 1" by code_simp
  from getMinimapObject_border [OF h, of 5] obtain mm hp' where
    mm: "getMinimapObject (Some grid44) Half 2 5 heap0 = Some (mm, hp')"
    and size: "width (images hp' (imageM mm)) = 20" "height (images hp' (imageM mm)) = 20"
    and border: "\<forall>px py. outerMargin (images hp' (imageM mm)) 2 px py \<and>
        \<not> drawnOver (images heap0) grid44 Half 2 px py \<longrightarrow>
        getPixel (images hp' (imageM mm)) px py = 5"
    unfolding w by blast
  have m: "outerMargin (images hp' (imageM mm)) 2 19 1"
    using size by (simp add: outerMargin_def inRange_def)
  then have "getPixel (images hp' (imageM mm)) 19 1 = 5" using border n by blast
  then show ?thesis using h mm m n by blast
qed

end
